theory Spec2Isabelle
  imports Complex_Main "HOL-Library.Word"
begin

section \<open>Strings and character classes\<close>

text \<open>
  A JavaScript string is a sequence of 16-bit code units. The regular expressions of
  \<^verbatim>\<open>script.js\<close> carry no \<^verbatim>\<open>u\<close> flag, so they work on code units.
\<close>

type_synonym jschar = "16 word"
type_synonym jsstring = "jschar list"

definition js :: "string \<Rightarrow> jsstring" where
  \<comment> \<open>An ASCII literal of the source as code units.\<close>
  "js s = map of_char s"

definition is_digit :: "jschar \<Rightarrow> bool" where
  \<comment> \<open>\<^verbatim>\<open>\d\<close>: the ten ASCII digits.\<close>
  "is_digit c = (0x30 \<le> c \<and> c \<le> 0x39)"

definition is_upper :: "jschar \<Rightarrow> bool" where
  "is_upper c = (0x41 \<le> c \<and> c \<le> 0x5A)"

definition is_lower :: "jschar \<Rightarrow> bool" where
  "is_lower c = (0x61 \<le> c \<and> c \<le> 0x7A)"

definition is_alpha :: "jschar \<Rightarrow> bool" where
  \<comment> \<open>\<^verbatim>\<open>[a-z]\<close> under the \<^verbatim>\<open>i\<close> flag: without the \<^verbatim>\<open>u\<close> flag a code unit from 128 on
      is never folded onto an ASCII letter, so the class is the 52 ASCII letters.\<close>
  "is_alpha c = (is_lower c \<or> is_upper c)"

definition is_word :: "jschar \<Rightarrow> bool" where
  \<comment> \<open>\<^verbatim>\<open>\w\<close>, the class behind \<^verbatim>\<open>\b\<close>: \<^verbatim>\<open>[A-Za-z0-9_]\<close>.\<close>
  "is_word c = (is_alpha c \<or> is_digit c \<or> c = 0x5F)"

definition is_space :: "jschar \<Rightarrow> bool" where
  \<comment> \<open>\<^verbatim>\<open>\s\<close> and the characters \<^verbatim>\<open>trim\<close> strips: WhiteSpace and LineTerminator.\<close>
  "is_space c = (c \<in> {0x09, 0x0A, 0x0B, 0x0C, 0x0D, 0x20, 0xA0, 0x1680, 0x2028, 0x2029,
                        0x202F, 0x205F, 0x3000, 0xFEFF} \<or> (0x2000 \<le> c \<and> c \<le> 0x200A))"

definition canon :: "jschar \<Rightarrow> jschar" where
  \<comment> \<open>Canonicalize of the \<^verbatim>\<open>i\<close> flag, as far as it is compared with the ASCII characters of
      the patterns: an ASCII lower-case letter becomes its upper-case letter; no other code
      unit is mapped onto an ASCII character.\<close>
  "canon c = (if is_lower c then c - 0x20 else c)"

fun match_lit :: "jsstring \<Rightarrow> jsstring \<Rightarrow> jsstring option" where
  \<comment> \<open>A literal of a pattern without the \<^verbatim>\<open>i\<close> flag at the start of the text: the text
      after it.\<close>
  "match_lit [] s = Some s"
| "match_lit (p # ps) [] = None"
| "match_lit (p # ps) (c # cs) = (if c = p then match_lit ps cs else None)"

fun match_lit_i :: "jsstring \<Rightarrow> jsstring \<Rightarrow> jsstring option" where
  \<comment> \<open>The same under the \<^verbatim>\<open>i\<close> flag.\<close>
  "match_lit_i [] s = Some s"
| "match_lit_i (p # ps) [] = None"
| "match_lit_i (p # ps) (c # cs) = (if canon c = canon p then match_lit_i ps cs else None)"

definition digits1 :: "jsstring \<Rightarrow> (jsstring \<times> jsstring) option" where
  \<comment> \<open>A final \<^verbatim>\<open>(\d+)\<close>: greedy, and nothing follows it in the pattern, so the longest run of
      digits is the match. The result is the group and the text after the match.\<close>
  "digits1 s = (if takeWhile is_digit s = [] then None
                else Some (takeWhile is_digit s, dropWhile is_digit s))"

fun search :: "(jsstring \<Rightarrow> 'a option) \<Rightarrow> jsstring \<Rightarrow> 'a option" where
  \<comment> \<open>The leftmost position at which the pattern, anchored there, matches.\<close>
  "search p [] = p []"
| "search p (c # cs) = (case p (c # cs) of Some r \<Rightarrow> Some r | None \<Rightarrow> search p cs)"

section \<open>The set of item IDs\<close>

text \<open>
  A JavaScript \<^verbatim>\<open>Set\<close> iterates in insertion order, and \<^verbatim>\<open>convertToTSM\<close> reads that order
  (\<^verbatim>\<open>Array.from\<close> before a stable sort), so the set is a list without duplicates, in
  insertion order.
\<close>

definition set_add :: "'a \<Rightarrow> 'a list \<Rightarrow> 'a list" where
  \<comment> \<open>\<^verbatim>\<open>itemIds.add(x)\<close>\<close>
  "set_add x s = (if x \<in> set s then s else s @ [x])"

definition add_all :: "'a list \<Rightarrow> 'a list \<Rightarrow> 'a list" where
  \<comment> \<open>The body \<^verbatim>\<open>itemIds.add(match[1])\<close> of a loop, over its successive matches.\<close>
  "add_all gs s = fold set_add gs s"

section \<open>extractItemIds\<close>

subsection \<open>The markup heuristic\<close>

fun isHTML_at :: "jsstring \<Rightarrow> bool" where
  \<comment> \<open>\<^verbatim>\<open><[a-z][\s\S]*>\<close> anchored at the start: \<^verbatim>\<open>[\s\S]*\<close> takes any code units, so a match
      exists iff some \<^verbatim>\<open>>\<close> follows the letter.\<close>
  "isHTML_at (c # a # r) = (c = 0x3C \<and> is_alpha a \<and> 0x3E \<in> set r)"
| "isHTML_at _ = False"

fun isHTML_test :: "jsstring \<Rightarrow> bool" where
  \<comment> \<open>\<^verbatim>\<open>/<[a-z][\s\S]*>/i.test(text)\<close>\<close>
  "isHTML_test [] = False"
| "isHTML_test (c # cs) = (isHTML_at (c # cs) \<or> isHTML_test cs)"

subsection \<open>Links of the parsed document\<close>

definition hrefPattern :: "jsstring \<Rightarrow> (jsstring \<times> jsstring) option" where
  \<comment> \<open>\<^verbatim>\<open>/item[/=](\d+)/i\<close> anchored at the start.\<close>
  "hrefPattern s =
     (case match_lit_i (js ''item'') s of
        None \<Rightarrow> None
      | Some r \<Rightarrow> (case r of
                    [] \<Rightarrow> None
                  | c # r' \<Rightarrow> if c = 0x2F \<or> c = 0x3D then digits1 r' else None))"

definition add_link :: "jsstring \<Rightarrow> jsstring list \<Rightarrow> jsstring list" where
  \<comment> \<open>The callback of \<^verbatim>\<open>forEach\<close>: \<^verbatim>\<open>href.match\<close> is not global, so the first match counts.\<close>
  "add_link href ids =
     (if href \<noteq> [] then
        (case search hrefPattern href of
           Some (g, _) \<Rightarrow> set_add g ids
         | None \<Rightarrow> ids)
      else ids)"

text \<open>
  \<^verbatim>\<open>DOMParser\<close> and \<^verbatim>\<open>querySelectorAll('a[href]')\<close> belong to the browser. They are the
  parameter \<open>parser\<close>: the \<^verbatim>\<open>href\<close> attributes of the document's links in document order, or
  \<open>None\<close> when the parsing throws. Everything that can throw in the \<^verbatim>\<open>try\<close> block comes
  before the first \<^verbatim>\<open>add\<close>, so the \<^verbatim>\<open>catch\<close> leaves the set as it was.
\<close>

type_synonym dom_parser = "jsstring \<Rightarrow> jsstring list option"

definition html_links :: "dom_parser \<Rightarrow> jsstring \<Rightarrow> jsstring list \<Rightarrow> jsstring list" where
  "html_links parser text ids =
     (case parser text of
        None \<Rightarrow> ids
      | Some hrefs \<Rightarrow> fold add_link hrefs ids)"

subsection \<open>Pattern 1: Wowhead URLs\<close>

definition item_tail :: "jsstring \<Rightarrow> (jsstring \<times> jsstring) option" where
  \<comment> \<open>\<^verbatim>\<open>item[=/](\d+)\<close> under the \<^verbatim>\<open>i\<close> flag.\<close>
  "item_tail s =
     (case match_lit_i (js ''item'') s of
        None \<Rightarrow> None
      | Some r \<Rightarrow> (case r of
                    [] \<Rightarrow> None
                  | c # r' \<Rightarrow> if c = 0x3D \<or> c = 0x2F then digits1 r' else None))"

definition slash_item_tail :: "jsstring \<Rightarrow> (jsstring \<times> jsstring) option" where
  \<comment> \<open>\<^verbatim>\<open>\/?item[=/](\d+)\<close>: the greedy \<^verbatim>\<open>?\<close> tries the slash first, then no slash.\<close>
  "slash_item_tail s =
     (case (case s of c # r \<Rightarrow> (if c = 0x2F then item_tail r else None) | [] \<Rightarrow> None) of
        Some m \<Rightarrow> Some m
      | None \<Rightarrow> item_tail s)"

fun first_some :: "('a \<Rightarrow> 'b option) \<Rightarrow> 'a list \<Rightarrow> 'b option" where
  \<comment> \<open>Backtracking: the first alternative, in the order tried, that succeeds.\<close>
  "first_some f [] = None"
| "first_some f (x # xs) = (case f x of Some r \<Rightarrow> Some r | None \<Rightarrow> first_some f xs)"

definition wowheadUrlPattern :: "jsstring \<Rightarrow> (jsstring \<times> jsstring) option" where
  \<comment> \<open>\<^verbatim>\<open>/wowhead\.com\/[a-z]*\/?item[=/](\d+)/gi\<close> anchored at the start. The greedy
      \<^verbatim>\<open>[a-z]*\<close> first takes the whole run of letters and gives them back one by one.\<close>
  "wowheadUrlPattern s =
     (case match_lit_i (js ''wowhead.com/'') s of
        None \<Rightarrow> None
      | Some r \<Rightarrow>
          first_some (\<lambda>k. slash_item_tail (drop k r))
            (rev [0 ..< Suc (length (takeWhile is_alpha r))]))"

function exec_url :: "jsstring \<Rightarrow> jsstring list" where
  \<comment> \<open>\<^verbatim>\<open>while ((match = wowheadUrlPattern.exec(text)) !== null)\<close>: the groups \<^verbatim>\<open>match[1]\<close> of
      the successive matches, each search starting where the last match ended.\<close>
  "exec_url s =
     (case search wowheadUrlPattern s of
        None \<Rightarrow> []
      | Some (g, rest) \<Rightarrow> g # exec_url rest)"
  by pat_completeness auto
termination
proof (relation "measure length")
  fix s :: jsstring and x :: "jsstring \<times> jsstring" and g rest :: jsstring
  assume found: "search wowheadUrlPattern s = Some x" and x: "(g, rest) = x"
  have lit: "length r \<le> length t" if "match_lit_i ps t = Some r" for ps t r
    using that by (induction ps t rule: match_lit_i.induct) (auto split: if_splits)
  have dig: "length r \<le> length t" if "digits1 t = Some (h, r)" for t h r
    using that by (auto simp: digits1_def length_dropWhile_le split: if_splits)
  have tail: "length r < length t" if "item_tail t = Some (h, r)" for t h r
  proof (cases t)
    case Nil
    with that show ?thesis by (simp add: item_tail_def js_def)
  next
    case (Cons c cs)
    with that lit dig show ?thesis
      by (fastforce simp: item_tail_def js_def split: option.splits if_splits list.splits)
  qed
  have slash: "length r < length t" if "slash_item_tail t = Some (h, r)" for t h r
    using that tail by (fastforce simp: slash_item_tail_def split: option.splits if_splits list.splits)
  have alts: "length r < length t" if "first_some (\<lambda>k. slash_item_tail (drop k t)) ks = Some (h, r)"
    for t ks h r
    using that
  proof (induction ks)
    case Nil
    then show ?case by simp
  next
    case (Cons k ks)
    show ?case
    proof (cases "slash_item_tail (drop k t)")
      case None
      with Cons show ?thesis by simp
    next
      case (Some m)
      with Cons.prems have "slash_item_tail (drop k t) = Some (h, r)" by simp
      from slash [OF this] show ?thesis by simp
    qed
  qed
  have anchored: "length r < length t" if "wowheadUrlPattern t = Some (h, r)" for t h r
  proof -
    from that obtain u where u: "match_lit_i (js ''wowhead.com/'') t = Some u"
      and "first_some (\<lambda>k. slash_item_tail (drop k u))
             (rev [0 ..< Suc (length (takeWhile is_alpha u))]) = Some (h, r)"
      by (auto simp: wowheadUrlPattern_def split: option.splits)
    then have "length r < length u" using alts by blast
    with lit [OF u] show ?thesis by simp
  qed
  have "length r < length t" if "search wowheadUrlPattern t = Some (h, r)" for t h r
    using that anchored by (induction t) (fastforce split: option.splits)+
  with found x show "(rest, s) \<in> measure length" by auto
qed simp

declare exec_url.simps [simp del]

subsection \<open>Pattern 2: bare numbers\<close>

definition word_before :: "jschar option \<Rightarrow> bool" where
  \<comment> \<open>Whether the position before is a word character; the start of the text is not.\<close>
  "word_before prev = (case prev of None \<Rightarrow> False | Some c \<Rightarrow> is_word c)"

definition numberPattern :: "jschar option \<Rightarrow> jsstring \<Rightarrow> (jsstring \<times> jsstring) option" where
  \<comment> \<open>\<^verbatim>\<open>/\b(\d+)\b/g\<close> anchored at the start of \<open>s\<close>, \<open>prev\<close> being the code unit before.
      The first \<^verbatim>\<open>\b\<close> needs a non-word character (or the start) before the first digit.
      \<^verbatim>\<open>\d+\<close> takes the whole run of digits; the second \<^verbatim>\<open>\b\<close> needs a non-word character
      (or the end) after it. Giving digits back cannot help: the position would lie between
      two digits, which is no word boundary.\<close>
  "numberPattern prev s =
     (if word_before prev then None
      else (case digits1 s of
              None \<Rightarrow> None
            | Some (g, rest) \<Rightarrow>
                (case rest of
                   [] \<Rightarrow> Some (g, rest)
                 | c # _ \<Rightarrow> if is_word c then None else Some (g, rest))))"

fun search_b :: "(jschar option \<Rightarrow> jsstring \<Rightarrow> 'a option) \<Rightarrow> jschar option \<Rightarrow> jsstring \<Rightarrow> 'a option" where
  \<comment> \<open>\<open>search\<close> for a pattern that looks at the code unit before the position.\<close>
  "search_b p prev [] = p prev []"
| "search_b p prev (c # cs) =
     (case p prev (c # cs) of Some r \<Rightarrow> Some r | None \<Rightarrow> search_b p (Some c) cs)"

function exec_number :: "jschar option \<Rightarrow> jsstring \<Rightarrow> jsstring list" where
  \<comment> \<open>The loop over \<^verbatim>\<open>numberPattern.exec(text)\<close>. The match is its group, so the code unit
      before the next search is the last digit of the group.\<close>
  "exec_number prev s =
     (case search_b numberPattern prev s of
        None \<Rightarrow> []
      | Some (g, rest) \<Rightarrow>
          g # exec_number (Some (last g)) rest)"
  by pat_completeness auto
termination
proof (relation "measure (\<lambda>(prev, s). length s)")
  fix prev :: "jschar option" and s :: jsstring and x :: "jsstring \<times> jsstring"
    and g rest :: jsstring
  assume found: "search_b numberPattern prev s = Some x" and x: "(g, rest) = x"
  have anchored: "length r < length t" if "numberPattern q t = Some (h, r)" for q t h r
  proof (cases t)
    case Nil
    with that show ?thesis
      by (simp add: numberPattern_def digits1_def split: if_splits)
  next
    case (Cons c cs)
    from that have "r = dropWhile is_digit t" and "takeWhile is_digit t \<noteq> []"
      by (auto simp: numberPattern_def digits1_def split: if_splits list.splits)
    with Cons show ?thesis
      by (auto simp: less_Suc_eq_le length_dropWhile_le split: if_splits)
  qed
  have "length r < length t" if "search_b numberPattern q t = Some (h, r)" for q t h r
    using that anchored by (induction t arbitrary: q) (fastforce split: option.splits)+
  with found x show "((Some (last g), rest), (prev, s)) \<in> measure (\<lambda>(prev, s). length s)"
    by auto
qed simp

declare exec_number.simps [simp del]

subsection \<open>Patterns 3 and 4: item:xxxxx and i:xxxxx\<close>

definition itemFormatPattern :: "jsstring \<Rightarrow> (jsstring \<times> jsstring) option" where
  \<comment> \<open>\<^verbatim>\<open>/item:(\d+)/gi\<close> anchored at the start.\<close>
  "itemFormatPattern s =
     (case match_lit_i (js ''item:'') s of None \<Rightarrow> None | Some r \<Rightarrow> digits1 r)"

function exec_item :: "jsstring \<Rightarrow> jsstring list" where
  "exec_item s =
     (case search itemFormatPattern s of
        None \<Rightarrow> []
      | Some (g, rest) \<Rightarrow> g # exec_item rest)"
  by pat_completeness auto
termination
proof (relation "measure length")
  fix s :: jsstring and x :: "jsstring \<times> jsstring" and g rest :: jsstring
  assume found: "search itemFormatPattern s = Some x" and x: "(g, rest) = x"
  have lit: "length r \<le> length t" if "match_lit_i ps t = Some r" for ps t r
    using that by (induction ps t rule: match_lit_i.induct) (auto split: if_splits)
  have dig: "length r \<le> length t" if "digits1 t = Some (h, r)" for t h r
    using that by (auto simp: digits1_def length_dropWhile_le split: if_splits)
  have anchored: "length r < length t" if "itemFormatPattern t = Some (h, r)" for t h r
  proof (cases t)
    case Nil
    with that show ?thesis by (simp add: itemFormatPattern_def js_def)
  next
    case (Cons c cs)
    with that lit dig show ?thesis
      by (fastforce simp: itemFormatPattern_def js_def split: option.splits if_splits)
  qed
  have "length r < length t" if "search itemFormatPattern t = Some (h, r)" for t h r
    using that anchored by (induction t) (fastforce split: option.splits)+
  with found x show "(rest, s) \<in> measure length" by auto
qed simp

declare exec_item.simps [simp del]

definition tsmFormatPattern :: "jsstring \<Rightarrow> (jsstring \<times> jsstring) option" where
  \<comment> \<open>\<^verbatim>\<open>/i:(\d+)/gi\<close> anchored at the start.\<close>
  "tsmFormatPattern s =
     (case match_lit_i (js ''i:'') s of None \<Rightarrow> None | Some r \<Rightarrow> digits1 r)"

function exec_tsm :: "jsstring \<Rightarrow> jsstring list" where
  "exec_tsm s =
     (case search tsmFormatPattern s of
        None \<Rightarrow> []
      | Some (g, rest) \<Rightarrow> g # exec_tsm rest)"
  by pat_completeness auto
termination
proof (relation "measure length")
  fix s :: jsstring and x :: "jsstring \<times> jsstring" and g rest :: jsstring
  assume found: "search tsmFormatPattern s = Some x" and x: "(g, rest) = x"
  have lit: "length r \<le> length t" if "match_lit_i ps t = Some r" for ps t r
    using that by (induction ps t rule: match_lit_i.induct) (auto split: if_splits)
  have dig: "length r \<le> length t" if "digits1 t = Some (h, r)" for t h r
    using that by (auto simp: digits1_def length_dropWhile_le split: if_splits)
  have anchored: "length r < length t" if "tsmFormatPattern t = Some (h, r)" for t h r
  proof (cases t)
    case Nil
    with that show ?thesis by (simp add: tsmFormatPattern_def js_def)
  next
    case (Cons c cs)
    with that lit dig show ?thesis
      by (fastforce simp: tsmFormatPattern_def js_def split: option.splits if_splits)
  qed
  have "length r < length t" if "search tsmFormatPattern t = Some (h, r)" for t h r
    using that anchored by (induction t) (fastforce split: option.splits)+
  with found x show "(rest, s) \<in> measure length" by auto
qed simp

declare exec_tsm.simps [simp del]

subsection \<open>The function\<close>

definition extractItemIds :: "dom_parser \<Rightarrow> jsstring \<Rightarrow> jsstring list" where
  "extractItemIds parser text =
     (let itemIds = [];
          isHTML = isHTML_test text;
          itemIds = (if isHTML then html_links parser text itemIds else itemIds);
          itemIds = add_all (exec_url text) itemIds;
          itemIds = (if \<not> isHTML then add_all (exec_number None text) itemIds else itemIds);
          itemIds = add_all (exec_item text) itemIds;
          itemIds = add_all (exec_tsm text) itemIds
      in itemIds)"

section \<open>extractItemNames\<close>

definition itemNamePattern :: "jsstring \<Rightarrow> (jsstring \<times> jsstring) option" where
  \<comment> \<open>\<^verbatim>\<open>/\[([^\]]+)\]/g\<close> anchored at the start. The greedy class takes every code unit up
      to the next \<^verbatim>\<open>]\<close> (or the end); giving code units back cannot help, since the one
      after a shorter run is not \<^verbatim>\<open>]\<close>.\<close>
  "itemNamePattern s =
     (case s of
        [] \<Rightarrow> None
      | c # r \<Rightarrow>
          if c = 0x5B then
            (let inner = takeWhile (\<lambda>d. d \<noteq> 0x5D) r;
                 after = dropWhile (\<lambda>d. d \<noteq> 0x5D) r
             in if inner = [] then None
                else (case after of [] \<Rightarrow> None | _ # rest \<Rightarrow> Some (inner, rest)))
          else None)"

function exec_name :: "jsstring \<Rightarrow> jsstring list" where
  \<comment> \<open>The loop over \<^verbatim>\<open>itemNamePattern.exec(text)\<close>, pushing \<^verbatim>\<open>match[1]\<close>.\<close>
  "exec_name s =
     (case search itemNamePattern s of
        None \<Rightarrow> []
      | Some (g, rest) \<Rightarrow> g # exec_name rest)"
  by pat_completeness auto
termination
proof (relation "measure length")
  fix s :: jsstring and x :: "jsstring \<times> jsstring" and g rest :: jsstring
  assume found: "search itemNamePattern s = Some x" and x: "(g, rest) = x"
  have anchored: "length r < length t" if "itemNamePattern t = Some (h, r)" for t h r
  proof (cases t)
    case Nil
    with that show ?thesis by (simp add: itemNamePattern_def)
  next
    case (Cons c cs)
    with that obtain d where "dropWhile (\<lambda>d. d \<noteq> 0x5D) cs = d # r"
      by (auto simp: itemNamePattern_def Let_def split: if_splits list.splits)
    then have "Suc (length r) \<le> length cs"
      using length_dropWhile_le [of "\<lambda>d. d \<noteq> 0x5D" cs] by simp
    with Cons show ?thesis by simp
  qed
  have "length r < length t" if "search itemNamePattern t = Some (h, r)" for t h r
    using that anchored by (induction t) (fastforce split: option.splits)+
  with found x show "(rest, s) \<in> measure length" by auto
qed simp

declare exec_name.simps [simp del]

definition extractItemNames :: "jsstring \<Rightarrow> jsstring list" where
  "extractItemNames text = exec_name text"

section \<open>Sorting and rendering\<close>

subsection \<open>Number\<close>

text \<open>
  \<^verbatim>\<open>Number(a)\<close> on a string is the StringToNumber operation of ECMAScript: white space
  is trimmed, the empty string is 0, a prefix \<^verbatim>\<open>0x\<close>, \<^verbatim>\<open>0o\<close> or \<^verbatim>\<open>0b\<close> starts an integer in
  that base, anything else is an optional sign and \<^verbatim>\<open>Infinity\<close> or a decimal literal with
  optional fraction and exponent; every other string is \<^verbatim>\<open>NaN\<close>. The value is rounded to a
  double. The comparator only subtracts two such values and looks at the sign, so a
  double is kept as the rational number it is, \<^verbatim>\<open>Infinity\<close> as \<open>2 ^ 1024\<close> (above every
  finite double) and \<^verbatim>\<open>NaN\<close> as \<open>None\<close>; \<^verbatim>\<open>-0\<close> is 0.
\<close>

definition digit_val :: "jschar \<Rightarrow> nat" where
  \<comment> \<open>The value of a decimal digit. It is applied to digits only: every use of
      \<open>dec_value\<close> below is on a run that \<open>takeWhile is_digit\<close> gave or that
      \<open>list_all is_digit\<close> has checked; any other character makes \<open>js_Number\<close> take
      another branch.\<close>
  "digit_val c = unat c - 0x30"

definition dec_value :: "jsstring \<Rightarrow> nat" where
  \<comment> \<open>The mathematical value of a run of decimal digits.\<close>
  "dec_value s = fold (\<lambda>c n. 10 * n + digit_val c) s 0"

definition digit_of :: "jschar \<Rightarrow> nat option" where
  \<comment> \<open>The value of a hexadecimal digit.\<close>
  "digit_of c =
     (if is_digit c then Some (unat c - 0x30)
      else if 0x61 \<le> c \<and> c \<le> 0x66 then Some (unat c - 0x57)
      else if 0x41 \<le> c \<and> c \<le> 0x46 then Some (unat c - 0x37)
      else None)"

fun radix_digits :: "nat \<Rightarrow> jsstring \<Rightarrow> nat \<Rightarrow> nat option" where
  "radix_digits b [] n = Some n"
| "radix_digits b (c # cs) n =
     (case digit_of c of
        None \<Rightarrow> None
      | Some d \<Rightarrow> if d < b then radix_digits b cs (b * n + d) else None)"

definition radix_value :: "nat \<Rightarrow> jsstring \<Rightarrow> nat option" where
  \<comment> \<open>The value of a non-empty string of digits of the base \<open>b\<close>.\<close>
  "radix_value b s = (if s = [] then None else radix_digits b s 0)"

fun bitlen :: "nat \<Rightarrow> nat" where
  "bitlen n = (if n = 0 then 0 else Suc (bitlen (n div 2)))"

declare bitlen.simps [simp del]

definition ilog2 :: "nat \<Rightarrow> nat \<Rightarrow> int" where
  \<comment> \<open>The binary exponent of \<open>p / q\<close>: the \<open>e\<close> with \<open>2 ^ e \<le> p / q < 2 ^ (e + 1)\<close>.\<close>
  "ilog2 p q =
     (let d = int (bitlen p) - int (bitlen q)
      in if q * 2 ^ nat d \<le> p * 2 ^ nat (- d) then d else d - 1)"

definition double_infinity :: rat where
  "double_infinity = 2 ^ 1024"

definition to_double :: "nat \<Rightarrow> nat \<Rightarrow> rat" where
  \<comment> \<open>The double nearest to \<open>p / q\<close>: 53 bits of significand, no exponent below that of
      the subnormal numbers, round to nearest, ties to even, \<^verbatim>\<open>Infinity\<close> from \<open>2 ^ 1024\<close>
      on after rounding. (Beyond 20 significant digits ECMAScript lets an engine round from
      the first 20 digits; the engines round the exact value, as here.)\<close>
  "to_double p q =
     (if p = 0 then 0
      else (let e = ilog2 p q;
                u = max (e - 52) (- 1074);
                num = p * 2 ^ nat (- u);
                den = q * 2 ^ nat u;
                m = num div den;
                r = num mod den;
                m' = (if den < 2 * r \<or> (2 * r = den \<and> odd m) then m + 1 else m);
                v = of_nat m' * 2 ^ nat u / 2 ^ nat (- u)
            in if double_infinity \<le> v then double_infinity else v))"

definition trim :: "jsstring \<Rightarrow> jsstring" where
  "trim s = rev (dropWhile is_space (rev (dropWhile is_space s)))"

definition signed_integer :: "jsstring \<Rightarrow> int option" where
  \<comment> \<open>Digits with an optional sign, and nothing else.\<close>
  "signed_integer s =
     (case s of
        [] \<Rightarrow> None
      | c # ds \<Rightarrow>
          if c = 0x2B \<or> c = 0x2D then
            (if ds \<noteq> [] \<and> list_all is_digit ds
             then Some (if c = 0x2D then - int (dec_value ds) else int (dec_value ds))
             else None)
          else if list_all is_digit s then Some (int (dec_value s))
          else None)"

definition exponent_part :: "jsstring \<Rightarrow> int option" where
  \<comment> \<open>What follows the digits of a decimal literal: nothing, or \<^verbatim>\<open>e\<close> and an exponent.\<close>
  "exponent_part s =
     (case s of
        [] \<Rightarrow> Some 0
      | c # t \<Rightarrow> if c = 0x65 \<or> c = 0x45 then signed_integer t else None)"

definition unsigned_decimal :: "jsstring \<Rightarrow> rat option" where
  \<comment> \<open>\<^verbatim>\<open>Infinity\<close>, or digits, an optional point with digits, an optional exponent, with a
      digit before or after the point.\<close>
  "unsigned_decimal s =
     (if s = js ''Infinity'' then Some double_infinity
      else (let ip = takeWhile is_digit s;
                r1 = dropWhile is_digit s;
                dot = (r1 \<noteq> [] \<and> hd r1 = 0x2E);
                fp = (if dot then takeWhile is_digit (tl r1) else []);
                r2 = (if dot then dropWhile is_digit (tl r1) else r1)
            in if ip = [] \<and> fp = [] then None
               else (case exponent_part r2 of
                       None \<Rightarrow> None
                     | Some ex \<Rightarrow>
                         (let k = ex - int (length fp)
                          in Some (to_double (dec_value (ip @ fp) * 10 ^ nat k) (10 ^ nat (- k)))))))"

definition js_Number :: "jsstring \<Rightarrow> rat option" where
  \<comment> \<open>\<^verbatim>\<open>Number(a)\<close>; \<open>None\<close> is \<^verbatim>\<open>NaN\<close>.\<close>
  "js_Number a =
     (case trim a of
        [] \<Rightarrow> Some 0
      | c # u \<Rightarrow>
          if c = 0x30 \<and> u \<noteq> [] \<and> (hd u = 0x78 \<or> hd u = 0x58) then
            map_option (\<lambda>n. to_double n 1) (radix_value 16 (tl u))
          else if c = 0x30 \<and> u \<noteq> [] \<and> (hd u = 0x6F \<or> hd u = 0x4F) then
            map_option (\<lambda>n. to_double n 1) (radix_value 8 (tl u))
          else if c = 0x30 \<and> u \<noteq> [] \<and> (hd u = 0x62 \<or> hd u = 0x42) then
            map_option (\<lambda>n. to_double n 1) (radix_value 2 (tl u))
          else if c = 0x2B then unsigned_decimal u
          else if c = 0x2D then map_option uminus (unsigned_decimal u)
          else unsigned_decimal (c # u))"

subsection \<open>The sort\<close>

text \<open>
  The comparator is \<^verbatim>\<open>(a, b) => Number(a) - Number(b)\<close>. The difference of two doubles has
  the sign of their comparison; \<^verbatim>\<open>Infinity - Infinity\<close> and every difference with \<^verbatim>\<open>NaN\<close>
  are \<^verbatim>\<open>NaN\<close>, which \<^verbatim>\<open>sort\<close> takes as 0. So two IDs compare as equal when their numbers
  are equal or one of them is \<^verbatim>\<open>NaN\<close>, and else as their numbers do. ECMAScript fixes the
  result of \<^verbatim>\<open>sort\<close>, the stable sort, when the comparator is consistent on the array.
  Here that is the case when no number is \<^verbatim>\<open>NaN\<close>, and, with a \<^verbatim>\<open>NaN\<close>, when all the other
  numbers are equal (then all IDs compare as equal and the array stays as it is). For
  every other array the order is left to the engine.
\<close>

definition number_key :: "jsstring \<Rightarrow> rat" where
  \<comment> \<open>The key of the sort where no number is \<^verbatim>\<open>NaN\<close>.\<close>
  "number_key a = (case js_Number a of Some x \<Rightarrow> x | None \<Rightarrow> 0)"

definition sort_consistent :: "jsstring list \<Rightarrow> jsstring list option" where
  \<comment> \<open>The sorted array where ECMAScript fixes it, \<open>None\<close> where it is left to the engine.\<close>
  "sort_consistent ids =
     (let keys = map js_Number ids
      in if None \<notin> set keys then Some (sort_key number_key ids)
         else if length (remdups (filter (\<lambda>k. k \<noteq> None) keys)) \<le> 1 then Some ids
         else None)"

type_synonym engine_sort = "jsstring list \<Rightarrow> jsstring \<Rightarrow> nat"

definition sortedIds :: "engine_sort \<Rightarrow> jsstring list \<Rightarrow> jsstring list" where
  \<comment> \<open>\<^verbatim>\<open>Array.from(itemIds).sort((a, b) => Number(a) - Number(b))\<close>. The parameter
      \<open>engine\<close> stands for the engine where the order is left to it: for such an array it
      gives the rank at which each ID comes out, so that the result is a permutation.\<close>
  "sortedIds engine itemIds =
     (case sort_consistent itemIds of
        Some s \<Rightarrow> s
      | None \<Rightarrow> sort_key (engine itemIds) itemIds)"

subsection \<open>The rendering\<close>

fun join :: "jsstring \<Rightarrow> jsstring list \<Rightarrow> jsstring" where
  \<comment> \<open>\<^verbatim>\<open>xs.join(sep)\<close>\<close>
  "join sep [] = []"
| "join sep [x] = x"
| "join sep (x # y # ys) = x @ sep @ join sep (y # ys)"

definition tsmFormat :: "jsstring list \<Rightarrow> jsstring" where
  \<comment> \<open>\<^verbatim>\<open>sortedIds.map(id => `i:${id}`).join(',')\<close>\<close>
  "tsmFormat ids = join (js '','') (map (\<lambda>id. js ''i:'' @ id) ids)"

fun split_on :: "jschar \<Rightarrow> jsstring \<Rightarrow> jsstring list" where
  \<comment> \<open>The tokens of a separated string, to state the format of the output: what
      \<^verbatim>\<open>join\<close> put together, taken apart again at every separator.\<close>
  "split_on sep [] = [[]]"
| "split_on sep (c # cs) =
     (if c = sep then [] # split_on sep cs
      else (case split_on sep cs of
              [] \<Rightarrow> [[c]]
            | t # ts \<Rightarrow> (c # t) # ts))"

section \<open>searchWowheadForItemName\<close>

subsection \<open>encodeURIComponent\<close>

datatype thrown = URIError | TypeError

definition unreserved :: "jschar \<Rightarrow> bool" where
  \<comment> \<open>The characters \<^verbatim>\<open>encodeURIComponent\<close> leaves as they are: letters, digits and
      \<^verbatim>\<open>- _ . ! ~ * ' ( )\<close>.\<close>
  "unreserved c = (is_alpha c \<or> is_digit c \<or>
                   c \<in> {0x2D, 0x5F, 0x2E, 0x21, 0x7E, 0x2A, 0x27, 0x28, 0x29})"

definition is_lead :: "jschar \<Rightarrow> bool" where
  \<comment> \<open>A leading (high) surrogate.\<close>
  "is_lead c = (0xD800 \<le> c \<and> c \<le> 0xDBFF)"

definition is_trail :: "jschar \<Rightarrow> bool" where
  \<comment> \<open>A trailing (low) surrogate.\<close>
  "is_trail c = (0xDC00 \<le> c \<and> c \<le> 0xDFFF)"

definition hex_digit :: "nat \<Rightarrow> jschar" where
  "hex_digit n = (if n < 10 then 0x30 + of_nat n else 0x41 + of_nat (n - 10))"

definition percent :: "nat \<Rightarrow> jsstring" where
  \<comment> \<open>One octet as \<^verbatim>\<open>%XX\<close>, in upper-case hexadecimal.\<close>
  "percent b = [0x25, hex_digit (b div 16), hex_digit (b mod 16)]"

definition utf8 :: "nat \<Rightarrow> nat list" where
  \<comment> \<open>The octets of the UTF-8 encoding of a code point.\<close>
  "utf8 cp =
     (if cp < 0x80 then [cp]
      else if cp < 0x800 then [0xC0 + cp div 0x40, 0x80 + cp mod 0x40]
      else if cp < 0x10000 then
        [0xE0 + cp div 0x1000, 0x80 + cp div 0x40 mod 0x40, 0x80 + cp mod 0x40]
      else [0xF0 + cp div 0x40000, 0x80 + cp div 0x1000 mod 0x40,
            0x80 + cp div 0x40 mod 0x40, 0x80 + cp mod 0x40])"

definition escape_cp :: "nat \<Rightarrow> jsstring" where
  "escape_cp cp = concat (map percent (utf8 cp))"

fun encodeURIComponent :: "jsstring \<Rightarrow> thrown + jsstring" where
  \<comment> \<open>The Encode operation of ECMAScript: a surrogate that is not half of a pair throws a
      \<^verbatim>\<open>URIError\<close>.\<close>
  "encodeURIComponent [] = Inr []"
| "encodeURIComponent (c # cs) =
     (if unreserved c then
        (case encodeURIComponent cs of Inl e \<Rightarrow> Inl e | Inr r \<Rightarrow> Inr (c # r))
      else if is_trail c then Inl URIError
      else if is_lead c then
        (case cs of
           [] \<Rightarrow> Inl URIError
         | d # ds \<Rightarrow>
             if is_trail d then
               (case encodeURIComponent ds of
                  Inl e \<Rightarrow> Inl e
                | Inr r \<Rightarrow>
                    Inr (escape_cp (0x10000 + (unat c - 0xD800) * 0x400 + (unat d - 0xDC00)) @ r))
             else Inl URIError)
      else
        (case encodeURIComponent cs of
           Inl e \<Rightarrow> Inl e
         | Inr r \<Rightarrow> Inr (escape_cp (unat c) @ r)))"

subsection \<open>Values of the parsed search result\<close>

text \<open>
  What \<^verbatim>\<open>JSON.parse\<close> can build, and \<^verbatim>\<open>undefined\<close> for a property that is not there. A
  number is kept as the text \<^verbatim>\<open>toString()\<close> gives for it, which determines it; \<open>Obj\<close>
  holds the own properties.
\<close>

datatype jsvalue =
    Undefined
  | Null
  | Bool bool
  | Num jsstring
  | Str jsstring
  | Arr "jsvalue list"
  | Obj "(jsstring \<times> jsvalue) list"

fun truthy :: "jsvalue \<Rightarrow> bool" where
  "truthy Undefined = False"
| "truthy Null = False"
| "truthy (Bool b) = b"
| "truthy (Num n) = (n \<noteq> js ''0'')"
| "truthy (Str s) = (s \<noteq> [])"
| "truthy (Arr xs) = True"
| "truthy (Obj kvs) = True"

fun get_prop :: "jsvalue \<Rightarrow> jsstring \<Rightarrow> thrown + jsvalue" where
  \<comment> \<open>\<^verbatim>\<open>v.k\<close> for the keys the code reads (\<^verbatim>\<open>id\<close>, \<^verbatim>\<open>name\<close>, \<^verbatim>\<open>name_enus\<close>), which
      no prototype defines: an own property of an object, \<^verbatim>\<open>undefined\<close> elsewhere, a
      \<^verbatim>\<open>TypeError\<close> on \<^verbatim>\<open>null\<close> and \<^verbatim>\<open>undefined\<close>.\<close>
  "get_prop Undefined k = Inl TypeError"
| "get_prop Null k = Inl TypeError"
| "get_prop (Obj kvs) k = (case map_of kvs k of Some v \<Rightarrow> Inr v | None \<Rightarrow> Inr Undefined)"
| "get_prop _ k = Inr Undefined"

fun all_some :: "'a option list \<Rightarrow> 'a list option" where
  "all_some [] = Some []"
| "all_some (None # xs) = None"
| "all_some (Some x # xs) = (case all_some xs of None \<Rightarrow> None | Some ys \<Rightarrow> Some (x # ys))"

fun to_string :: "jsvalue \<Rightarrow> jsstring option" where
  \<comment> \<open>ToString, and \<^verbatim>\<open>v.toString()\<close> on a value that is neither \<^verbatim>\<open>null\<close> nor
      \<^verbatim>\<open>undefined\<close>; \<open>None\<close> is a \<^verbatim>\<open>TypeError\<close>: an object whose own property
      \<^verbatim>\<open>toString\<close> hides the method (no parsed value is callable). An array joins its
      elements with commas, \<^verbatim>\<open>null\<close> being empty there.\<close>
  "to_string Undefined = Some (js ''undefined'')"
| "to_string Null = Some (js ''null'')"
| "to_string (Bool b) = Some (if b then js ''true'' else js ''false'')"
| "to_string (Num n) = Some n"
| "to_string (Str s) = Some s"
| "to_string (Arr xs) =
     (case all_some (map (\<lambda>x. if x = Null \<or> x = Undefined then Some [] else to_string x) xs) of
        None \<Rightarrow> None
      | Some ss \<Rightarrow> Some (join (js '','') ss))"
| "to_string (Obj kvs) =
     (if map_of kvs (js ''toString'') \<noteq> None then None else Some (js ''[object Object]''))"

subsection \<open>The patterns applied to the response\<close>

definition lazy_group :: "jsstring \<Rightarrow> jsstring option" where
  \<comment> \<open>\<^verbatim>\<open>[\s\S]*?\]\)\}\<close> after the opening bracket of the group: the lazy star tries the
      shortest run first. The result is the group \<^verbatim>\<open>(\[[\s\S]*?\])\<close>.\<close>
  "lazy_group w =
     first_some (\<lambda>k. case match_lit (js '']}'') (drop k w) of
                        None \<Rightarrow> None
                      | Some _ \<Rightarrow> Some (0x5B # take k w @ [0x5D]))
       [0 ..< Suc (length w)]"

definition after_data :: "jsstring \<Rightarrow> jsstring option" where
  \<comment> \<open>\<^verbatim>\<open>data:\s*(\[[\s\S]*?\])\}\<close>. After the greedy \<^verbatim>\<open>\s*\<close> comes a bracket, which is no
      white space, so giving white space back cannot help.\<close>
  "after_data t =
     (case match_lit (js ''data:'') t of
        None \<Rightarrow> None
      | Some u \<Rightarrow> (case dropWhile is_space u of
                    [] \<Rightarrow> None
                  | c # w \<Rightarrow> if c = 0x5B then lazy_group w else None))"

definition after_template :: "jsstring \<Rightarrow> jsstring option" where
  \<comment> \<open>\<^verbatim>\<open>template:\s*'item'[^}]*data:...\<close>; the quote after the greedy \<^verbatim>\<open>\s*\<close> is no white
      space either, and the greedy \<^verbatim>\<open>[^}]*\<close> gives back one code unit at a time.\<close>
  "after_template t =
     (case match_lit (js ''template:'') t of
        None \<Rightarrow> None
      | Some u \<Rightarrow>
          (case match_lit (0x27 # js ''item'' @ [0x27]) (dropWhile is_space u) of
             None \<Rightarrow> None
           | Some v \<Rightarrow>
               first_some (\<lambda>k. after_data (drop k v))
                 (rev [0 ..< Suc (length (takeWhile (\<lambda>c. c \<noteq> 0x7D) v))])))"

definition listviewPattern :: "jsstring \<Rightarrow> jsstring option" where
  \<comment> \<open>\<^verbatim>\<open>/new Listview\(\{[^}]*template:\s*'item'[^}]*data:\s*(\[[\s\S]*?\])\}/\<close> anchored at
      the start: its group 1.\<close>
  "listviewPattern s =
     (case match_lit (js ''new Listview({'') s of
        None \<Rightarrow> None
      | Some r \<Rightarrow>
          first_some (\<lambda>k. after_template (drop k r))
            (rev [0 ..< Suc (length (takeWhile (\<lambda>c. c \<noteq> 0x7D) r))]))"

definition itemIdPattern :: "jsstring \<Rightarrow> (jsstring \<times> jsstring) option" where
  \<comment> \<open>\<^verbatim>\<open>/\/item[=/](\d+)/\<close> anchored at the start.\<close>
  "itemIdPattern s =
     (case match_lit (js ''/item'') s of
        None \<Rightarrow> None
      | Some r \<Rightarrow> (case r of
                    [] \<Rightarrow> None
                  | c # r' \<Rightarrow> if c = 0x3D \<or> c = 0x2F then digits1 r' else None))"

subsection \<open>The result and the collaborators\<close>

datatype resolution =
    Found jsstring jsstring jsvalue
  | NotFound jsstring jsstring jsstring

text \<open>
  \<open>Found\<close> is \<^verbatim>\<open>{ success: true, id, searchedName, foundName }\<close> and \<open>NotFound\<close> is
  \<^verbatim>\<open>{ success: false, name, error, searchUrl }\<close>, the fields in this order.

  \<^verbatim>\<open>fetch\<close> is the browser's. One call either fails inside the \<^verbatim>\<open>try\<close> block with an
  exception object (a network error, the abort of the 8 second timeout, a missing
  \<^verbatim>\<open>AbortSignal.timeout\<close>), of which the code reads the \<^verbatim>\<open>message\<close>, or gives a response
  with its \<^verbatim>\<open>ok\<close> flag, of which \<^verbatim>\<open>text()\<close> fails in the same way or gives the body.
  \<^verbatim>\<open>JSON.parse\<close> is the engine's: on a text that starts with a bracket it gives the
  elements of an array, or throws (\<open>None\<close>).
\<close>

datatype fetch_outcome =
    Rejected jsstring
  | Response bool "jsstring + jsstring"

type_synonym fetch_call = "jsstring \<Rightarrow> fetch_outcome"
type_synonym json_parser = "jsstring \<Rightarrow> jsvalue list option"

definition first_entry :: "jsstring \<Rightarrow> jsvalue list \<Rightarrow> thrown + resolution option" where
  \<comment> \<open>Lines 87 to 91, inside the inner \<^verbatim>\<open>try\<close>: \<open>Inr None\<close> when the condition of the
      \<^verbatim>\<open>if\<close> fails.\<close>
  "first_entry itemName data =
     (case data of
        [] \<Rightarrow> Inr None
      | d # _ \<Rightarrow>
          (case get_prop d (js ''id'') of
             Inl e \<Rightarrow> Inl e
           | Inr i \<Rightarrow>
               if truthy i then
                 (case get_prop d (js ''name_enus'') of
                    Inl e \<Rightarrow> Inl e
                  | Inr n1 \<Rightarrow>
                      (case get_prop d (js ''name'') of
                         Inl e \<Rightarrow> Inl e
                       | Inr n2 \<Rightarrow>
                           (case to_string i of
                              None \<Rightarrow> Inl TypeError
                            | Some ident \<Rightarrow>
                                Inr (Some (Found ident itemName
                                  (if truthy n1 then n1
                                   else if truthy n2 then n2 else Str itemName))))))
               else Inr None))"

definition listview_entry :: "json_parser \<Rightarrow> jsstring \<Rightarrow> jsstring \<Rightarrow> resolution option" where
  \<comment> \<open>Lines 82 to 95: the structured data of the page. The inner \<^verbatim>\<open>catch\<close> only logs, so
      an exception of \<^verbatim>\<open>JSON.parse\<close> or of the property reads falls through to the
      fallback. Group 1 starts with a bracket, so it is never the empty string.\<close>
  "listview_entry parse itemName html =
     (case search listviewPattern html of
        None \<Rightarrow> None
      | Some g \<Rightarrow>
          (case parse g of
             None \<Rightarrow> None
           | Some data \<Rightarrow>
               (case first_entry itemName data of
                  Inl e \<Rightarrow> None
                | Inr r \<Rightarrow> r)))"

definition scan_response :: "json_parser \<Rightarrow> jsstring \<Rightarrow> jsstring \<Rightarrow> jsstring \<Rightarrow> resolution" where
  \<comment> \<open>Lines 80 to 103, from the body of the response to the \<^verbatim>\<open>return\<close>.\<close>
  "scan_response parse itemName searchUrl html =
     (case listview_entry parse itemName html of
        Some r \<Rightarrow> r
      | None \<Rightarrow>
          (case search itemIdPattern html of
             Some (g, _) \<Rightarrow> Found g itemName (Str itemName)
           | None \<Rightarrow> NotFound itemName (js ''No item found'') searchUrl))"

definition uri_error_message :: jsstring where
  \<comment> \<open>The \<^verbatim>\<open>message\<close> of a \<^verbatim>\<open>URIError\<close> is the engine's; this is V8's.\<close>
  "uri_error_message = js ''URI malformed''"

definition try_block :: "fetch_call \<Rightarrow> json_parser \<Rightarrow> jsstring \<Rightarrow> jsstring \<Rightarrow> jsstring + resolution" where
  \<comment> \<open>Lines 69 to 103; \<open>Inl\<close> is the \<^verbatim>\<open>message\<close> of the exception that reaches the
      \<^verbatim>\<open>catch\<close>.\<close>
  "try_block fetch parse itemName searchUrl =
     (case encodeURIComponent searchUrl of
        Inl e \<Rightarrow> Inl uri_error_message
      | Inr encoded \<Rightarrow>
          (case fetch (js ''https://api.allorigins.win/raw?url='' @ encoded) of
             Rejected m \<Rightarrow> Inl m
           | Response ok body \<Rightarrow>
               if \<not> ok then Inl (js ''Response not OK'')
               else (case body of
                       Inl m \<Rightarrow> Inl m
                     | Inr html \<Rightarrow> Inr (scan_response parse itemName searchUrl html))))"

definition searchWowheadForItemName :: "fetch_call \<Rightarrow> json_parser \<Rightarrow> jsstring \<Rightarrow> thrown + resolution" where
  \<comment> \<open>\<open>Inl\<close>: the promise is rejected, so the \<^verbatim>\<open>await\<close> of the caller throws. Line 66
      builds \<^verbatim>\<open>searchUrl\<close> before the \<^verbatim>\<open>try\<close> block begins on line 68.\<close>
  "searchWowheadForItemName fetch parse itemName =
     (case encodeURIComponent itemName of
        Inl e \<Rightarrow> Inl e
      | Inr encoded \<Rightarrow>
          (let searchUrl = js ''https://www.wowhead.com/items?filter=na='' @ encoded
           in case try_block fetch parse itemName searchUrl of
                Inr r \<Rightarrow> Inr r
              | Inl m \<Rightarrow> Inr (NotFound itemName m searchUrl)))"

section \<open>convertToTSM\<close>

subsection \<open>The page\<close>

datatype msg_type = MsgError | MsgInfo | MsgSuccess

record message =
  msg_text :: jsstring
  msg_type :: msg_type
  msg_html :: bool

text \<open>
  The elements of the page the function reads and writes: the value of \<^verbatim>\<open>#input\<close>, the
  message that \<^verbatim>\<open>#message\<close> shows, the value of \<^verbatim>\<open>#output\<close> and the texts of
  \<^verbatim>\<open>#itemCount\<close> and \<^verbatim>\<open>#uniqueCount\<close>. The timer that hides a message is left out.
\<close>

record page =
  input_value :: jsstring
  shown :: "message option"
  output_value :: jsstring
  itemCount_text :: jsstring
  uniqueCount_text :: jsstring

definition showMessage :: "jsstring \<Rightarrow> msg_type \<Rightarrow> bool \<Rightarrow> page \<Rightarrow> page" where
  "showMessage t ty isHTML pg =
     pg\<lparr>shown := Some \<lparr>msg_text = t, msg_type = ty, msg_html = isHTML\<rparr>\<rparr>"

fun escape_char :: "jschar \<Rightarrow> jsstring" where
  "escape_char c =
     (if c = 0x26 then js ''&amp;''
      else if c = 0x3C then js ''&lt;''
      else if c = 0x3E then js ''&gt;''
      else if c = 0xA0 then js ''&nbsp;''
      else [c])"

definition escapeHtml :: "jsstring \<Rightarrow> jsstring" where
  \<comment> \<open>\<^verbatim>\<open>div.textContent = text; return div.innerHTML\<close>: the serialisation of a text node.\<close>
  "escapeHtml t = concat (map escape_char t)"

definition text_content :: "jsvalue \<Rightarrow> jsstring option" where
  \<comment> \<open>What \<^verbatim>\<open>div.textContent = v\<close> stores: \<^verbatim>\<open>null\<close> and \<^verbatim>\<open>undefined\<close> are the empty
      text, any other value is converted by ToString (\<open>None\<close>: it throws).\<close>
  "text_content v = (if v = Null \<or> v = Undefined then Some [] else to_string v)"

definition search_link :: "jsstring \<times> jsstring \<Rightarrow> jsstring" where
  \<comment> \<open>One failed search, \<^verbatim>\<open>{ name, searchUrl }\<close>, as a link.\<close>
  \<open>search_link item =
     js ''<a href="'' @ snd item @ js ''" target="_blank" style="color: #58a6ff;">''
       @ escapeHtml (fst item) @ js ''</a>''\<close>

definition formatSearchLinks :: "(jsstring \<times> jsstring) list \<Rightarrow> jsstring" where
  "formatSearchLinks failedSearches = join (js '', '') (map search_link failedSearches)"

function dec_string :: "nat \<Rightarrow> jsstring" where
  \<comment> \<open>A count in a template literal.\<close>
  "dec_string n =
     (if n < 10 then [0x30 + of_nat n] else dec_string (n div 10) @ [0x30 + of_nat (n mod 10)])"
  by pat_completeness auto
termination
  by (relation "measure id") auto

subsection \<open>Looking the names up\<close>

type_synonym found_item = "jsstring \<times> jsvalue \<times> jsstring"
type_synonym lookups = "jsstring list \<times> (jsstring \<times> jsstring) list \<times> found_item list"

text \<open>
  The state of the loop of lines 159 to 169 is \<^verbatim>\<open>itemIds\<close>, \<^verbatim>\<open>failedSearches\<close> (of
  \<^verbatim>\<open>{ name, searchUrl }\<close>) and \<^verbatim>\<open>foundItems\<close> (of \<^verbatim>\<open>{ searchedName, foundName, id }\<close>).
  The names are looked up one after the other; \<open>net k\<close> is what \<^verbatim>\<open>fetch\<close> does in the
  lookup number \<open>k\<close>. A rejected lookup ends \<^verbatim>\<open>convertToTSM\<close>: nothing catches it there.
\<close>

fun resolve_all :: "(nat \<Rightarrow> fetch_call) \<Rightarrow> json_parser \<Rightarrow> nat \<Rightarrow> jsstring list \<Rightarrow> lookups \<Rightarrow> thrown + lookups" where
  "resolve_all net parse k [] acc = Inr acc"
| "resolve_all net parse k (itemName # rest) (itemIds, failedSearches, foundItems) =
     (case searchWowheadForItemName (net k) parse itemName of
        Inl e \<Rightarrow> Inl e
      | Inr (Found i searched found) \<Rightarrow>
          resolve_all net parse (Suc k) rest
            (set_add i itemIds, failedSearches, foundItems @ [(searched, found, i)])
      | Inr (NotFound n e url) \<Rightarrow>
          resolve_all net parse (Suc k) rest
            (itemIds, failedSearches @ [(itemName, url)], foundItems))"

subsection \<open>The messages\<close>

definition searching_message :: "nat \<Rightarrow> jsstring" where
  "searching_message n =
     js ''Searching Wowhead for '' @ dec_string n @ js '' item name(s)... This may take a moment.''"

definition manual_search_message :: "(jsstring \<times> jsstring) list \<Rightarrow> jsstring" where
  "manual_search_message failedSearches =
     js ''Could not automatically find items. Try searching manually: ''
       @ formatSearchLinks failedSearches
       @ js ''. Note: Automatic search may be blocked by ad blockers or browser extensions.''"

definition no_ids_message :: jsstring where
  "no_ids_message = js ''No valid item IDs found in the input''"

definition converted_message :: "nat \<Rightarrow> jsstring" where
  "converted_message n =
     js ''Successfully converted '' @ dec_string n @ js '' item(s) to TSM format!''"

definition found_line :: "found_item \<Rightarrow> jsstring option" where
  \<comment> \<open>One entry of \<^verbatim>\<open>foundItemsList\<close>; \<open>0x2713\<close> is the check mark.\<close>
  "found_line item =
     (case item of (searched, found, i) \<Rightarrow>
        (case text_content found of
           None \<Rightarrow> None
         | Some t \<Rightarrow>
             Some (js ''<br>'' @ [0x2713] @ js '' Found: <strong>'' @ escapeHtml t
                   @ js ''</strong> (ID: '' @ escapeHtml i @ js '')'')))"

definition not_found_line :: "(jsstring \<times> jsstring) list \<Rightarrow> jsstring" where
  \<comment> \<open>\<open>0x274C\<close> is the cross mark.\<close>
  "not_found_line failedSearches =
     js ''<br>'' @ [0x274C] @ js '' Could not find: '' @ formatSearchLinks failedSearches
       @ js ''. (May be blocked by ad blocker)''"

subsection \<open>The function\<close>

definition clear_result :: "page \<Rightarrow> page" where
  \<comment> \<open>\<^verbatim>\<open>output.value = ''; itemCountEl.textContent = '0'; uniqueCountEl.textContent = '0'\<close>\<close>
  "clear_result pg =
     pg\<lparr>output_value := [], itemCount_text := js ''0'', uniqueCount_text := js ''0''\<rparr>"

definition render_result :: "engine_sort \<Rightarrow> page \<Rightarrow> lookups \<Rightarrow> page \<times> thrown option" where
  \<comment> \<open>Lines 172 to 219. The second component is the exception that ends the function, if
      any: \<^verbatim>\<open>escapeHtml(item.foundName)\<close> can throw on a found name that is an object.\<close>
  "render_result engine pg acc =
     (case acc of (itemIds, failedSearches, foundItems) \<Rightarrow>
        (let sorted_ids = sortedIds engine itemIds;
             uniqueCount = length sorted_ids
         in if uniqueCount = 0 \<and> length failedSearches > 0 then
              (clear_result (showMessage (manual_search_message failedSearches) MsgError True pg),
               None)
            else if uniqueCount = 0 then
              (clear_result (showMessage no_ids_message MsgError False pg), None)
            else
              (let pg = pg\<lparr>output_value := tsmFormat sorted_ids,
                              itemCount_text := dec_string uniqueCount,
                              uniqueCount_text := dec_string uniqueCount\<rparr>;
                   message = converted_message uniqueCount
               in case (if length foundItems > 0
                        then map_option (\<lambda>ls. message @ concat ls)
                               (all_some (map found_line foundItems))
                        else Some message) of
                    None \<Rightarrow> (pg, Some TypeError)
                  | Some message \<Rightarrow>
                      if length failedSearches > 0 then
                        (showMessage (message @ not_found_line failedSearches) MsgInfo True pg,
                         None)
                      else if length foundItems > 0 then
                        (showMessage message MsgSuccess True pg, None)
                      else (showMessage message MsgSuccess False pg, None))))"

definition convertToTSM :: "dom_parser \<Rightarrow> (nat \<Rightarrow> fetch_call) \<Rightarrow> json_parser \<Rightarrow> engine_sort \<Rightarrow> page \<Rightarrow> page \<times> thrown option" where
  \<comment> \<open>The page after the function, and the exception that ended it, if any.
      \<^verbatim>\<open>!input.trim()\<close> holds iff the input is white space only.\<close>
  "convertToTSM parser net parse engine pg =
     (let input = input_value pg
      in if list_all is_space input then
           (showMessage (js ''Please enter some Wowhead URLs or item IDs'') MsgError False pg,
            None)
         else
           (let itemIds = extractItemIds parser input;
                itemNames = extractItemNames input;
                pg = (if length itemNames > 0
                      then showMessage (searching_message (length itemNames)) MsgInfo False pg
                      else pg)
            in case resolve_all net parse 0 itemNames (itemIds, [], []) of
                 Inl e \<Rightarrow> (pg, Some e)
               | Inr acc \<Rightarrow> render_result engine pg acc))"

section \<open>Properties of the extractor\<close>

subsection \<open>The set and the groups of the patterns\<close>

lemma set_set_add: "set (set_add x s) = insert x (set s)"
  by (auto simp: set_add_def)

lemma distinct_set_add: "distinct s \<Longrightarrow> distinct (set_add x s)"
  by (simp add: set_add_def)

lemma set_add_all: "set (add_all gs s) = set gs \<union> set s"
  unfolding add_all_def by (induction gs arbitrary: s) (auto simp: set_set_add)

lemma distinct_add_all: "distinct s \<Longrightarrow> distinct (add_all gs s)"
  unfolding add_all_def by (induction gs arbitrary: s) (auto simp: distinct_set_add)

lemma digits1_group:
  assumes "digits1 s = Some (g, r)"
  shows "g \<noteq> []" and "list_all is_digit g" and "g = takeWhile is_digit s" and "r = dropWhile is_digit s"
  using assms by (auto simp: digits1_def list_all_iff split: if_splits dest: set_takeWhileD)

lemma search_SomeD: "search p s = Some r \<Longrightarrow> \<exists>t. p t = Some r"
  by (induction s) (auto split: option.splits)

lemma search_b_SomeD: "search_b p prev s = Some r \<Longrightarrow> \<exists>q t. p q t = Some r"
  by (induction s arbitrary: prev) (auto split: option.splits)

lemma first_some_SomeD: "first_some f xs = Some r \<Longrightarrow> \<exists>x \<in> set xs. f x = Some r"
  by (induction xs) (auto split: option.splits)

lemma hrefPattern_group: "hrefPattern s = Some (g, r) \<Longrightarrow> g \<noteq> [] \<and> list_all is_digit g"
  by (auto simp: hrefPattern_def split: option.splits list.splits if_splits dest: digits1_group)

lemma item_tail_group: "item_tail s = Some (g, r) \<Longrightarrow> g \<noteq> [] \<and> list_all is_digit g"
  by (auto simp: item_tail_def split: option.splits list.splits if_splits dest: digits1_group)

lemma slash_item_tail_group: "slash_item_tail s = Some (g, r) \<Longrightarrow> g \<noteq> [] \<and> list_all is_digit g"
  by (auto simp: slash_item_tail_def split: option.splits list.splits if_splits dest: item_tail_group)

lemma wowheadUrlPattern_group:
  "wowheadUrlPattern s = Some (g, r) \<Longrightarrow> g \<noteq> [] \<and> list_all is_digit g"
  by (auto simp: wowheadUrlPattern_def split: option.splits
           dest!: first_some_SomeD dest: slash_item_tail_group)

lemma numberPattern_group:
  "numberPattern prev s = Some (g, r) \<Longrightarrow> g \<noteq> [] \<and> list_all is_digit g"
  by (auto simp: numberPattern_def split: option.splits list.splits if_splits dest: digits1_group)

lemma itemFormatPattern_group:
  "itemFormatPattern s = Some (g, r) \<Longrightarrow> g \<noteq> [] \<and> list_all is_digit g"
  by (auto simp: itemFormatPattern_def split: option.splits dest: digits1_group)

lemma tsmFormatPattern_group:
  "tsmFormatPattern s = Some (g, r) \<Longrightarrow> g \<noteq> [] \<and> list_all is_digit g"
  by (auto simp: tsmFormatPattern_def split: option.splits dest: digits1_group)

lemma exec_url_groups: "g \<in> set (exec_url s) \<Longrightarrow> g \<noteq> [] \<and> list_all is_digit g"
proof (induction s rule: exec_url.induct)
  case (1 s)
  show ?case
  proof (cases "search wowheadUrlPattern s")
    case None
    with "1.prems" show ?thesis by (simp add: exec_url.simps [of s])
  next
    case (Some x)
    obtain h rest where x: "x = (h, rest)" by (cases x)
    from Some x obtain t where "wowheadUrlPattern t = Some (h, rest)"
      by (auto dest: search_SomeD)
    then have h: "h \<noteq> [] \<and> list_all is_digit h" by (rule wowheadUrlPattern_group)
    from "1.prems" Some x have "g = h \<or> g \<in> set (exec_url rest)"
      by (simp add: exec_url.simps [of s])
    with h "1.IH" [OF Some x [symmetric]] show ?thesis by blast
  qed
qed

lemma exec_item_groups: "g \<in> set (exec_item s) \<Longrightarrow> g \<noteq> [] \<and> list_all is_digit g"
proof (induction s rule: exec_item.induct)
  case (1 s)
  show ?case
  proof (cases "search itemFormatPattern s")
    case None
    with "1.prems" show ?thesis by (simp add: exec_item.simps [of s])
  next
    case (Some x)
    obtain h rest where x: "x = (h, rest)" by (cases x)
    from Some x obtain t where "itemFormatPattern t = Some (h, rest)"
      by (auto dest: search_SomeD)
    then have h: "h \<noteq> [] \<and> list_all is_digit h" by (rule itemFormatPattern_group)
    from "1.prems" Some x have "g = h \<or> g \<in> set (exec_item rest)"
      by (simp add: exec_item.simps [of s])
    with h "1.IH" [OF Some x [symmetric]] show ?thesis by blast
  qed
qed

lemma exec_tsm_groups: "g \<in> set (exec_tsm s) \<Longrightarrow> g \<noteq> [] \<and> list_all is_digit g"
proof (induction s rule: exec_tsm.induct)
  case (1 s)
  show ?case
  proof (cases "search tsmFormatPattern s")
    case None
    with "1.prems" show ?thesis by (simp add: exec_tsm.simps [of s])
  next
    case (Some x)
    obtain h rest where x: "x = (h, rest)" by (cases x)
    from Some x obtain t where "tsmFormatPattern t = Some (h, rest)"
      by (auto dest: search_SomeD)
    then have h: "h \<noteq> [] \<and> list_all is_digit h" by (rule tsmFormatPattern_group)
    from "1.prems" Some x have "g = h \<or> g \<in> set (exec_tsm rest)"
      by (simp add: exec_tsm.simps [of s])
    with h "1.IH" [OF Some x [symmetric]] show ?thesis by blast
  qed
qed

lemma exec_number_groups:
  "g \<in> set (exec_number prev s) \<Longrightarrow> g \<noteq> [] \<and> list_all is_digit g"
proof (induction prev s rule: exec_number.induct)
  case (1 prev s)
  show ?case
  proof (cases "search_b numberPattern prev s")
    case None
    with "1.prems" show ?thesis by (simp add: exec_number.simps [of prev s])
  next
    case (Some x)
    obtain h rest where x: "x = (h, rest)" by (cases x)
    from Some x obtain q t where "numberPattern q t = Some (h, rest)"
      by (auto dest: search_b_SomeD)
    then have h: "h \<noteq> [] \<and> list_all is_digit h" by (rule numberPattern_group)
    from "1.prems" Some x have "g = h \<or> g \<in> set (exec_number (Some (last h)) rest)"
      by (simp add: exec_number.simps [of prev s])
    with h "1.IH" [OF Some x [symmetric]] show ?thesis by blast
  qed
qed

lemma add_link_cases:
  "add_link href ids = ids \<or>
   (\<exists>g. g \<noteq> [] \<and> list_all is_digit g \<and> add_link href ids = set_add g ids)"
  by (auto simp: add_link_def split: option.splits dest!: search_SomeD dest: hrefPattern_group)

lemma fold_add_link_digits:
  "(\<forall>i \<in> set ids. i \<noteq> [] \<and> list_all is_digit i) \<Longrightarrow>
   \<forall>i \<in> set (fold add_link hrefs ids). i \<noteq> [] \<and> list_all is_digit i"
proof (induction hrefs arbitrary: ids)
  case Nil
  then show ?case by simp
next
  case (Cons h hs)
  from add_link_cases [of h ids] Cons.prems
  have "\<forall>i \<in> set (add_link h ids). i \<noteq> [] \<and> list_all is_digit i"
    by (auto simp: set_set_add)
  from Cons.IH [OF this] show ?case by simp
qed

lemma fold_add_link_distinct: "distinct ids \<Longrightarrow> distinct (fold add_link hrefs ids)"
proof (induction hrefs arbitrary: ids)
  case Nil
  then show ?case by simp
next
  case (Cons h hs)
  from add_link_cases [of h ids] Cons.prems have "distinct (add_link h ids)"
    by (auto simp: distinct_set_add)
  from Cons.IH [OF this] show ?case by simp
qed

lemma html_links_digits:
  "i \<in> set (html_links parser text []) \<Longrightarrow> i \<noteq> [] \<and> list_all is_digit i"
  using fold_add_link_digits [of "[]"]
  by (auto simp: html_links_def split: option.splits)

lemma html_links_distinct: "distinct (html_links parser text [])"
  by (auto simp: html_links_def fold_add_link_distinct split: option.splits)

lemma set_extractItemIds:
  "set (extractItemIds parser text) =
     (if isHTML_test text then set (html_links parser text []) else set (exec_number None text))
     \<union> set (exec_url text) \<union> set (exec_item text) \<union> set (exec_tsm text)"
  by (auto simp: extractItemIds_def Let_def set_add_all)

lemma distinct_extractItemIds: "distinct (extractItemIds parser text)"
  by (simp add: extractItemIds_def Let_def distinct_add_all html_links_distinct)

subsection \<open>Digits only\<close>

text \<open>
  Claim C4. For every input, and whatever the parser of the browser gives or throws, every
  element of the set that \<^verbatim>\<open>extractItemIds\<close> returns is a non-empty string of decimal digits
  (it matches \<^verbatim>\<open>^\d+$\<close>), and no value occurs twice in the set.
\<close>

theorem extractItemIds_digits_only:
  "distinct (extractItemIds parser text) \<and>
   (\<forall>i \<in> set (extractItemIds parser text). i \<noteq> [] \<and> list_all is_digit i)"
proof -
  have "i \<noteq> [] \<and> list_all is_digit i" if "i \<in> set (extractItemIds parser text)" for i
    using that html_links_digits [of i parser "text"] exec_number_groups [of i None "text"]
      exec_url_groups [of i "text"] exec_item_groups [of i "text"] exec_tsm_groups [of i "text"]
    by (auto simp: set_extractItemIds split: if_splits)
  with distinct_extractItemIds show ?thesis by blast
qed

theorem extractItemIds_digits_only_witness:
  "distinct (extractItemIds (\<lambda>t. None) (js ''item:42 i:42, 7''))
   \<and> js ''42'' \<in> set (extractItemIds (\<lambda>t. None) (js ''item:42 i:42, 7''))
   \<and> js ''42'' \<noteq> [] \<and> list_all is_digit (js ''42'')"
proof -
  have "js ''42'' \<in> set (extractItemIds (\<lambda>t. None) (js ''item:42 i:42, 7''))"
    by code_simp
  with extractItemIds_digits_only [of "\<lambda>t. None" "js ''item:42 i:42, 7''"]
  show ?thesis by blast
qed

subsection \<open>The markup heuristic gates the bare numbers\<close>

text \<open>
  Claim C1. When the browser's parser gives the one link of the input
  \<^verbatim>\<open><a href='/item=123'>Sword</a> 456\<close>, \<^verbatim>\<open>extractItemIds\<close> returns exactly the set of
  \<^verbatim>\<open>123\<close>: the bare token 456 is left out. For the input \<^verbatim>\<open>123, 456\<close> it returns exactly
  the set of \<^verbatim>\<open>123\<close> and \<^verbatim>\<open>456\<close>. In general the scan for bare numbers contributes to the
  set only when the input has no substring that looks like a tag: with one, the set is
  the union of the links and of the other three scans; without one, it is the union of
  the four scans.
\<close>

theorem extractItemIds_markup_gating:
  "(parser (js ''<a href='/item=123'>Sword</a> 456'') = Some [js ''/item=123''] \<longrightarrow>
      set (extractItemIds parser (js ''<a href='/item=123'>Sword</a> 456'')) = {js ''123''})
   \<and> set (extractItemIds parser (js ''123, 456'')) = {js ''123'', js ''456''}
   \<and> (isHTML_test text \<longrightarrow>
        set (extractItemIds parser text) =
          set (html_links parser text []) \<union> set (exec_url text) \<union> set (exec_item text)
            \<union> set (exec_tsm text))
   \<and> (\<not> isHTML_test text \<longrightarrow>
        set (extractItemIds parser text) =
          set (exec_url text) \<union> set (exec_number None text) \<union> set (exec_item text)
            \<union> set (exec_tsm text))"
proof -
  have markup: "isHTML_test (js ''<a href='/item=123'>Sword</a> 456'')"
    by code_simp
  have url: "exec_url (js ''<a href='/item=123'>Sword</a> 456'') = []"
    by code_simp
  have item: "exec_item (js ''<a href='/item=123'>Sword</a> 456'') = []"
    by code_simp
  have tsm: "exec_tsm (js ''<a href='/item=123'>Sword</a> 456'') = []"
    by code_simp
  have link: "add_link (js ''/item=123'') [] = [js ''123'']"
    by code_simp
  have first: "set (extractItemIds parser (js ''<a href='/item=123'>Sword</a> 456'')) = {js ''123''}"
    if "parser (js ''<a href='/item=123'>Sword</a> 456'') = Some [js ''/item=123'']"
    using that by (simp add: set_extractItemIds markup url item tsm html_links_def link)
  have second: "extractItemIds parser (js ''123, 456'') = [js ''123'', js ''456'']"
    by code_simp
  have "set [js ''123'', js ''456''] = {js ''123'', js ''456''}"
    by simp
  with first second show ?thesis
    by (auto simp only: set_extractItemIds if_True if_False)
qed

theorem extractItemIds_markup_gating_witness:
  "(\<lambda>t. Some [js ''/item=123'']) (js ''<a href='/item=123'>Sword</a> 456'') = Some [js ''/item=123'']
   \<and> isHTML_test (js ''<a href='/item=123'>Sword</a> 456'')
   \<and> \<not> isHTML_test (js ''123, 456'')
   \<and> set (extractItemIds (\<lambda>t. Some [js ''/item=123'']) (js ''<a href='/item=123'>Sword</a> 456''))
       = {js ''123''}
   \<and> set (extractItemIds (\<lambda>t. Some [js ''/item=123'']) (js ''123, 456''))
       = set (exec_url (js ''123, 456'')) \<union> set (exec_number None (js ''123, 456''))
         \<union> set (exec_item (js ''123, 456'')) \<union> set (exec_tsm (js ''123, 456''))"
proof -
  have markup: "isHTML_test (js ''<a href='/item=123'>Sword</a> 456'')"
    by code_simp
  have plain: "\<not> isHTML_test (js ''123, 456'')"
    by code_simp
  from extractItemIds_markup_gating
         [of "\<lambda>t. Some [js ''/item=123'']" "js ''123, 456''"] markup plain
  show ?thesis by blast
qed

subsection \<open>The union of the patterns\<close>

text \<open>
  Claim C7. For the input that holds \<^verbatim>\<open>https://wowhead.com/item=111\<close>, \<^verbatim>\<open>item:222\<close> and
  \<^verbatim>\<open>i:333\<close>, \<^verbatim>\<open>extractItemIds\<close> returns exactly the set of \<^verbatim>\<open>111\<close>, \<^verbatim>\<open>222\<close> and \<^verbatim>\<open>333\<close>,
  the first from the scan for URLs, the second from the scan for \<^verbatim>\<open>item:\<close> and the third
  from the scan for \<^verbatim>\<open>i:\<close>; and for every input the matches of these three scans are all
  in the one set returned.
\<close>

theorem extractItemIds_union:
  "set (extractItemIds parser (js ''https://wowhead.com/item=111 item:222 i:333''))
     = {js ''111'', js ''222'', js ''333''}
   \<and> set (exec_url (js ''https://wowhead.com/item=111 item:222 i:333'')) = {js ''111''}
   \<and> set (exec_item (js ''https://wowhead.com/item=111 item:222 i:333'')) = {js ''222''}
   \<and> set (exec_tsm (js ''https://wowhead.com/item=111 item:222 i:333'')) = {js ''333''}
   \<and> set (exec_url text) \<union> set (exec_item text) \<union> set (exec_tsm text)
       \<subseteq> set (extractItemIds parser text)"
proof -
  have ids: "extractItemIds parser (js ''https://wowhead.com/item=111 item:222 i:333'')
               = [js ''111'', js ''222'', js ''333'']"
    by code_simp
  have url: "exec_url (js ''https://wowhead.com/item=111 item:222 i:333'') = [js ''111'']"
    by code_simp
  have item: "exec_item (js ''https://wowhead.com/item=111 item:222 i:333'') = [js ''222'']"
    by code_simp
  have tsm: "exec_tsm (js ''https://wowhead.com/item=111 item:222 i:333'') = [js ''333'']"
    by code_simp
  have "set (exec_url text) \<union> set (exec_item text) \<union> set (exec_tsm text)
          \<subseteq> set (extractItemIds parser text)"
    by (auto simp: set_extractItemIds)
  then show ?thesis
    unfolding ids url item tsm by simp
qed

theorem extractItemIds_union_witness:
  "js ''5'' \<in> set (exec_tsm (js ''<b>i:5</b>''))
   \<and> js ''5'' \<in> set (extractItemIds (\<lambda>t. None) (js ''<b>i:5</b>''))"
proof -
  have "js ''5'' \<in> set (exec_tsm (js ''<b>i:5</b>''))"
    by code_simp
  with extractItemIds_union [of "\<lambda>t. None" "js ''<b>i:5</b>''"]
  show ?thesis by blast
qed

subsection \<open>A parser that throws\<close>

text \<open>
  Claim C6. \<^verbatim>\<open>extractItemIds\<close> returns for every input: the model is a total function
  whose loops terminate, and the one step that can throw is caught. If the parsing of the
  markup throws, the step adds nothing (the result is that of a document without links)
  and the other scans still run on the raw text: the result is the union of the scans for
  URLs, for \<^verbatim>\<open>item:\<close> and for \<^verbatim>\<open>i:\<close>, and of the scan for bare numbers where the markup
  heuristic lets it run.
\<close>

theorem extractItemIds_parser_throws:
  "parser text = None \<Longrightarrow>
     extractItemIds parser text = extractItemIds (\<lambda>t. Some []) text
     \<and> set (extractItemIds parser text) =
         set (exec_url text) \<union> (if isHTML_test text then {} else set (exec_number None text))
           \<union> set (exec_item text) \<union> set (exec_tsm text)"
  by (auto simp: extractItemIds_def Let_def html_links_def set_add_all)

theorem extractItemIds_parser_throws_witness:
  "(\<lambda>t. None) (js ''<b>77</b> item:5 i:6'') = (None :: jsstring list option)
   \<and> isHTML_test (js ''<b>77</b> item:5 i:6'')
   \<and> extractItemIds (\<lambda>t. None) (js ''<b>77</b> item:5 i:6'') = [js ''5'', js ''6'']
   \<and> set (extractItemIds (\<lambda>t. None) (js ''<b>77</b> item:5 i:6'')) =
         set (exec_url (js ''<b>77</b> item:5 i:6''))
           \<union> (if isHTML_test (js ''<b>77</b> item:5 i:6'') then {}
               else set (exec_number None (js ''<b>77</b> item:5 i:6'')))
           \<union> set (exec_item (js ''<b>77</b> item:5 i:6''))
           \<union> set (exec_tsm (js ''<b>77</b> item:5 i:6''))"
proof -
  have markup: "isHTML_test (js ''<b>77</b> item:5 i:6'')"
    by code_simp
  have ids: "extractItemIds (\<lambda>t. None) (js ''<b>77</b> item:5 i:6'') = [js ''5'', js ''6'']"
    by code_simp
  from extractItemIds_parser_throws [of "\<lambda>t. None" "js ''<b>77</b> item:5 i:6''"] markup ids
  show ?thesis by blast
qed

section \<open>Properties of extractItemNames\<close>

lemma search_no_first:
  "(\<And>t. p t \<noteq> None \<Longrightarrow> t \<noteq> [] \<and> f (hd t)) \<Longrightarrow> \<forall>c \<in> set s. \<not> f c \<Longrightarrow> search p s = None"
proof (induction s)
  case Nil
  then show ?case by (cases "p []") auto
next
  case (Cons c cs)
  then have "p (c # cs) = None" by (cases "p (c # cs)") fastforce+
  with Cons show ?case by simp
qed

lemma itemNamePattern_first: "itemNamePattern t \<noteq> None \<Longrightarrow> t \<noteq> [] \<and> hd t = 0x5B"
  by (auto simp: itemNamePattern_def split: list.splits if_splits)

lemma search_name_none: "0x5B \<notin> set s \<Longrightarrow> search itemNamePattern s = None"
  using search_no_first [of itemNamePattern "\<lambda>c. c = 0x5B" s] itemNamePattern_first
  by blast

lemma search_skip:
  "(\<And>t. p t \<noteq> None \<Longrightarrow> t \<noteq> [] \<and> f (hd t)) \<Longrightarrow> \<forall>c \<in> set pre. \<not> f c \<Longrightarrow>
   search p (pre @ c # s) = search p (c # s)"
proof (induction pre)
  case Nil
  then show ?case by simp
next
  case (Cons d ds)
  then have "p (d # ds @ c # s) = None" by (cases "p (d # ds @ c # s)") fastforce+
  with Cons show ?case by simp
qed

lemma search_name_skip:
  "0x5B \<notin> set pre \<Longrightarrow> search itemNamePattern (pre @ c # s) = search itemNamePattern (c # s)"
  using search_skip [of itemNamePattern "\<lambda>c. c = 0x5B" pre c s] itemNamePattern_first
  by blast

lemma itemNamePattern_closed:
  "n \<noteq> [] \<Longrightarrow> 0x5D \<notin> set n \<Longrightarrow> itemNamePattern (0x5B # n @ 0x5D # post) = Some (n, post)"
proof -
  assume n: "n \<noteq> []" "0x5D \<notin> set n"
  then have inner: "\<And>x. x \<in> set n \<Longrightarrow> x \<noteq> 0x5D"
    by auto
  then have "takeWhile (\<lambda>d. d \<noteq> 0x5D) (n @ 0x5D # post) = n"
    by (simp add: takeWhile_append2)
  moreover from inner have "dropWhile (\<lambda>d. d \<noteq> 0x5D) (n @ 0x5D # post) = 0x5D # post"
    by (simp add: dropWhile_append2)
  ultimately show ?thesis using n by (simp add: itemNamePattern_def)
qed

lemma itemNamePattern_unclosed:
  "0x5D \<notin> set r \<Longrightarrow> itemNamePattern (c # r) = None"
proof -
  assume "0x5D \<notin> set r"
  then have "\<And>x. x \<in> set r \<Longrightarrow> x \<noteq> 0x5D" by auto
  then have none: "dropWhile (\<lambda>d. d \<noteq> 0x5D) r = []" by simp
  show ?thesis by (simp add: itemNamePattern_def Let_def none)
qed

lemma search_name_unclosed: "0x5D \<notin> set r \<Longrightarrow> search itemNamePattern r = None"
proof (induction r)
  case Nil
  then show ?case by (simp add: itemNamePattern_def)
next
  case (Cons c cs)
  then show ?case by (simp add: itemNamePattern_unclosed)
qed

lemma exec_name_none: "0x5B \<notin> set s \<Longrightarrow> exec_name s = []"
  by (simp add: exec_name.simps [of s] search_name_none)

lemma exec_name_closed:
  assumes "0x5B \<notin> set pre" and "n \<noteq> []" and "0x5D \<notin> set n"
  shows "exec_name (pre @ 0x5B # n @ 0x5D # post) = n # exec_name post"
proof -
  have "search itemNamePattern (pre @ 0x5B # n @ 0x5D # post) = Some (n, post)"
    using assms by (simp add: search_name_skip itemNamePattern_closed)
  then show ?thesis
    by (simp add: exec_name.simps [of "pre @ 0x5B # n @ 0x5D # post"])
qed

lemma exec_name_unclosed:
  assumes "0x5B \<notin> set pre" and "0x5D \<notin> set r"
  shows "exec_name (pre @ 0x5B # r) = []"
proof -
  have "search itemNamePattern (pre @ 0x5B # r) = None"
    using assms by (simp add: search_name_skip search_name_unclosed itemNamePattern_unclosed)
  then show ?thesis by (simp add: exec_name.simps [of "pre @ 0x5B # r"])
qed

lemma exec_name_empty_pair:
  assumes "0x5B \<notin> set pre"
  shows "exec_name (pre @ 0x5B # 0x5D # post) = exec_name post"
proof -
  have "itemNamePattern (0x5B # 0x5D # post) = None"
    by (simp add: itemNamePattern_def)
  moreover have "itemNamePattern (0x5D # post) = None"
    by (simp add: itemNamePattern_def)
  ultimately have "search itemNamePattern (pre @ 0x5B # 0x5D # post) = search itemNamePattern post"
    using assms by (simp add: search_name_skip)
  then show ?thesis
    by (simp add: exec_name.simps [of "pre @ 0x5B # 0x5D # post"] exec_name.simps [of post])
qed

lemma itemNamePattern_group:
  "itemNamePattern s = Some (g, r) \<Longrightarrow> g \<noteq> [] \<and> 0x5D \<notin> set g"
  by (auto simp: itemNamePattern_def Let_def split: list.splits if_splits dest: set_takeWhileD)

lemma exec_name_groups: "g \<in> set (exec_name s) \<Longrightarrow> g \<noteq> [] \<and> 0x5D \<notin> set g"
proof (induction s rule: exec_name.induct)
  case (1 s)
  show ?case
  proof (cases "search itemNamePattern s")
    case None
    with "1.prems" show ?thesis by (simp add: exec_name.simps [of s])
  next
    case (Some x)
    obtain h rest where x: "x = (h, rest)" by (cases x)
    from Some x obtain t where "itemNamePattern t = Some (h, rest)"
      by (auto dest: search_SomeD)
    then have h: "h \<noteq> [] \<and> 0x5D \<notin> set h" by (rule itemNamePattern_group)
    from "1.prems" Some x have "g = h \<or> g \<in> set (exec_name rest)"
      by (simp add: exec_name.simps [of s])
    with h "1.IH" [OF Some x [symmetric]] show ?thesis by blast
  qed
qed


lemma exec_name_segments:
  assumes "\<forall>(pre, n) \<in> set segs. 0x5B \<notin> set pre \<and> n \<noteq> [] \<and> 0x5D \<notin> set n"
    and "0x5B \<notin> set rest"
  shows "exec_name (concat (map (\<lambda>(pre, n). pre @ 0x5B # n @ [0x5D]) segs) @ rest) = map snd segs"
  using assms(1)
proof (induction segs)
  case Nil
  with assms(2) show ?case by (simp add: exec_name_none)
next
  case (Cons seg segs)
  obtain pre n where seg: "seg = (pre, n)" by (cases seg)
  with Cons.prems have "0x5B \<notin> set pre" "n \<noteq> []" "0x5D \<notin> set n"
    by auto
  from exec_name_closed [OF this] Cons seg show ?case
    by simp
qed

text \<open>
  Claim C8. \<^verbatim>\<open>extractItemNames\<close> returns for every input (the model is a total function
  whose loop terminates) the inner texts of the bracketed substrings, each running from
  an opening bracket to the next closing bracket, in the order in which they appear and
  with repetitions kept: a text without opening bracket has no name; where the first
  opening bracket is followed by a non-empty run without closing bracket and then a
  closing bracket, that run is the first name, and the scan goes on after the closing
  bracket; where no closing bracket follows the first opening bracket, there is no name.
  So a text made of such bracketed names, with text free of opening brackets between
  them, gives exactly the list of these names.
\<close>

theorem extractItemNames_in_order:
  "(0x5B \<notin> set text \<longrightarrow> extractItemNames text = [])
   \<and> (0x5B \<notin> set pre \<and> n \<noteq> [] \<and> 0x5D \<notin> set n \<longrightarrow>
        extractItemNames (pre @ 0x5B # n @ 0x5D # post) = n # extractItemNames post)
   \<and> (0x5B \<notin> set pre \<and> 0x5D \<notin> set r \<longrightarrow> extractItemNames (pre @ 0x5B # r) = [])
   \<and> ((\<forall>(pre, n) \<in> set segs. 0x5B \<notin> set pre \<and> n \<noteq> [] \<and> 0x5D \<notin> set n)
          \<and> 0x5B \<notin> set rest \<longrightarrow>
        extractItemNames (concat (map (\<lambda>(pre, n). pre @ 0x5B # n @ [0x5D]) segs) @ rest)
          = map snd segs)"
  unfolding extractItemNames_def
  using exec_name_none [of "text"] exec_name_closed [of pre n post]
    exec_name_unclosed [of pre r] exec_name_segments [of segs rest]
  by blast

theorem extractItemNames_in_order_witness:
  "0x5B \<notin> set (js ''see '') \<and> js ''Sword'' \<noteq> [] \<and> 0x5D \<notin> set (js ''Sword'')
   \<and> extractItemNames (js ''see [Sword] and [Shield], then [Sword]'')
       = [js ''Sword'', js ''Shield'', js ''Sword'']"
proof -
  have pre: "0x5B \<notin> set (js ''see '')"
    by (simp add: js_def)
  have n: "js ''Sword'' \<noteq> [] \<and> 0x5D \<notin> set (js ''Sword'')"
    by (simp add: js_def)
  have split: "js ''see [Sword] and [Shield], then [Sword]''
                 = js ''see '' @ 0x5B # js ''Sword'' @ 0x5D # js '' and [Shield], then [Sword]''"
    by (simp add: js_def)
  have post: "extractItemNames (js '' and [Shield], then [Sword]'') = [js ''Shield'', js ''Sword'']"
    by code_simp
  from extractItemNames_in_order
         [of "text" "js ''see ''" "js ''Sword''" "js '' and [Shield], then [Sword]''"] pre n
  have "extractItemNames (js ''see '' @ 0x5B # js ''Sword'' @ 0x5D # js '' and [Shield], then [Sword]'')
          = js ''Sword'' # extractItemNames (js '' and [Shield], then [Sword]'')"
    by blast
  with pre n show ?thesis
    unfolding split post by simp
qed

text \<open>
  Claim C10. \<^verbatim>\<open>extractItemNames\<close> never returns an empty name: every name it returns is a
  non-empty string without closing bracket, and an empty pair of brackets adds no name,
  the pattern asking for at least one character other than the closing bracket between
  the brackets.
\<close>

theorem extractItemNames_no_empty_name:
  "(\<forall>n \<in> set (extractItemNames text). n \<noteq> [] \<and> 0x5D \<notin> set n)
   \<and> (0x5B \<notin> set pre \<longrightarrow>
        extractItemNames (pre @ 0x5B # 0x5D # post) = extractItemNames post)
   \<and> extractItemNames (js ''[]'') = []"
proof -
  have "extractItemNames (js ''[]'') = []"
    by code_simp
  then show ?thesis
    unfolding extractItemNames_def
    using exec_name_groups [of _ "text"] exec_name_empty_pair [of pre post]
    by blast
qed

theorem extractItemNames_no_empty_name_witness:
  "js ''b'' \<in> set (extractItemNames (js ''a [] [b]''))
   \<and> js ''b'' \<noteq> [] \<and> 0x5D \<notin> set (js ''b'')
   \<and> 0x5B \<notin> set (js ''a '')
   \<and> extractItemNames (js ''a '' @ 0x5B # 0x5D # js '' [b]'') = extractItemNames (js '' [b]'')
   \<and> extractItemNames (js ''a [] [b]'') = [js ''b'']"
proof -
  have names: "extractItemNames (js ''a [] [b]'') = [js ''b'']"
    by code_simp
  have pre: "0x5B \<notin> set (js ''a '')"
    by (simp add: js_def)
  from extractItemNames_no_empty_name [of "js ''a [] [b]''" "js ''a ''" "js '' [b]''"] pre
  have "js ''b'' \<noteq> [] \<and> 0x5D \<notin> set (js ''b'')
        \<and> extractItemNames (js ''a '' @ 0x5B # 0x5D # js '' [b]'') = extractItemNames (js '' [b]'')"
    unfolding names by simp
  with names pre show ?thesis by simp
qed

section \<open>Properties of Number and of the sort\<close>

lemma bitlen_0: "bitlen 0 = 0"
  by (simp add: bitlen.simps [of 0])

lemma bitlen_1: "bitlen (Suc 0) = Suc 0"
  by (simp add: bitlen.simps [of "Suc 0"] bitlen_0)

lemma bitlen_bounds: "0 < n \<Longrightarrow> 2 ^ (bitlen n - 1) \<le> n \<and> n < 2 ^ bitlen n"
proof (induction n rule: bitlen.induct)
  case (1 n)
  show ?case
  proof (cases "n div 2 = 0")
    case True
    with "1.prems" have "n = 1" by auto
    then show ?thesis by (simp add: bitlen_1)
  next
    case False
    with "1.IH" "1.prems" have ih: "2 ^ (bitlen (n div 2) - 1) \<le> n div 2" "n div 2 < 2 ^ bitlen (n div 2)"
      by auto
    from False have pos: "0 < bitlen (n div 2)"
      by (simp add: bitlen.simps [of "n div 2"])
    have len: "bitlen n = Suc (bitlen (n div 2))"
      using "1.prems" by (simp add: bitlen.simps [of n])
    from pos have low: "(2::nat) ^ (bitlen n - 1) = 2 * 2 ^ (bitlen (n div 2) - 1)"
      unfolding len by (cases "bitlen (n div 2)") simp_all
    have high: "(2::nat) ^ bitlen n = 2 * 2 ^ bitlen (n div 2)"
      unfolding len by simp
    have "2 * (n div 2) \<le> n" and "n < 2 * (n div 2) + 2"
      by arith+
    with ih show ?thesis
      unfolding low high by linarith
  qed
qed

lemma bitlen_le: "n < 2 ^ k \<Longrightarrow> bitlen n \<le> k"
proof (induction k arbitrary: n)
  case 0
  then show ?case by (simp add: bitlen_0)
next
  case (Suc k)
  then have "n div 2 < 2 ^ k" by simp
  from Suc.IH [OF this] show ?case by (simp add: bitlen.simps [of n])
qed

lemma to_double_exact:
  assumes "n < 2 ^ 53"
  shows "to_double n 1 = of_nat n"
proof (cases "n = 0")
  case True
  then show ?thesis by (simp add: to_double_def)
next
  case False
  then have pos: "0 < n" by simp
  from pos have len: "0 < bitlen n"
    by (simp add: bitlen.simps [of n])
  from bitlen_bounds [OF pos] have low: "2 ^ (bitlen n - 1) \<le> n" by simp
  from len have d: "int (bitlen n) - int (bitlen (Suc 0)) = int (bitlen n - 1)"
    by (simp add: bitlen_1)
  have e: "ilog2 n (Suc 0) = int (bitlen n - 1)"
    unfolding ilog2_def d using low by (simp add: Let_def)
  from bitlen_le [OF assms] have small: "bitlen n - 1 \<le> 52" by simp
  define s where "s = 52 - (bitlen n - 1)"
  from small have u: "max (int (bitlen n - 1) - 52) (- 1074) = - int s"
    by (simp add: s_def)
  have scaled: "of_nat (n * 2 ^ s) / 2 ^ s = (of_nat n :: rat)"
    by simp
  have below: "\<not> (double_infinity \<le> (of_nat n :: rat))"
  proof -
    from assms have "n < 2 ^ 1024"
      by (rule less_le_trans) simp
    then have "(of_nat n :: rat) < of_nat (2 ^ 1024)"
      by (simp only: of_nat_less_iff)
    then show ?thesis by (simp add: double_infinity_def)
  qed
  have "to_double n (Suc 0) = of_nat n"
    unfolding to_double_def e u Let_def
    using False below by (simp add: scaled)
  then show ?thesis by simp
qed

lemma digit_not_space: "is_digit c \<Longrightarrow> \<not> is_space c"
  by (auto simp: is_digit_def is_space_def word_le_nat_alt)

lemma dropWhile_hd: "s \<noteq> [] \<Longrightarrow> \<not> P (hd s) \<Longrightarrow> dropWhile P s = s"
  by (cases s) simp_all

lemma trim_digits:
  assumes "s \<noteq> []" and "list_all is_digit s"
  shows "trim s = s"
proof -
  from assms have first: "\<not> is_space (hd s)" and "\<not> is_space (last s)"
    by (auto simp: list_all_iff digit_not_space)
  with assms(1) have last: "\<not> is_space (hd (rev s))"
    by (simp add: hd_rev)
  from assms(1) have nonempty: "rev s \<noteq> []" by simp
  from nonempty last have "dropWhile is_space (rev s) = rev s"
    by (rule dropWhile_hd [where P = is_space])
  moreover from assms(1) first have "dropWhile is_space s = s"
    by (rule dropWhile_hd [where P = is_space])
  ultimately show ?thesis
    by (simp add: trim_def)
qed

lemma unsigned_decimal_digits:
  assumes "s \<noteq> []" and "list_all is_digit s"
  shows "unsigned_decimal s = Some (to_double (dec_value s) 1)"
proof -
  from assms have all: "\<And>x. x \<in> set s \<Longrightarrow> is_digit x"
    by (simp add: list_all_iff)
  then have run: "takeWhile is_digit s = s" "dropWhile is_digit s = []"
    by simp_all
  from assms(1) all have "is_digit (hd s)" by simp
  moreover have "\<not> is_digit (hd (js ''Infinity''))"
    by (simp add: js_def is_digit_def)
  ultimately have "s \<noteq> js ''Infinity''" by auto
  with assms(1) show ?thesis
    by (simp add: unsigned_decimal_def run Let_def exponent_part_def)
qed

lemma js_Number_digits:
  assumes "s \<noteq> []" and "list_all is_digit s"
  shows "js_Number s = Some (to_double (dec_value s) 1)"
proof -
  from assms obtain c u where s: "s = c # u" by (cases s) auto
  with assms(2) have c: "is_digit c" and u: "u \<noteq> [] \<Longrightarrow> is_digit (hd u)"
    by (auto simp: list_all_iff)
  from c have sign: "c \<noteq> 0x2B" "c \<noteq> 0x2D"
    by (auto simp: is_digit_def)
  have prefix: "hd u \<noteq> 0x78" "hd u \<noteq> 0x58" "hd u \<noteq> 0x6F" "hd u \<noteq> 0x4F" "hd u \<noteq> 0x62" "hd u \<noteq> 0x42"
    if "u \<noteq> []"
    using u [OF that] by (auto simp: is_digit_def)
  from unsigned_decimal_digits [OF assms] sign prefix show ?thesis
    unfolding js_Number_def trim_digits [OF assms] by (auto simp: s)
qed

lemma radix_digits_decimal:
  "list_all is_digit s \<Longrightarrow> radix_digits 10 s n = Some (fold (\<lambda>c n. 10 * n + digit_val c) s n)"
proof (induction s arbitrary: n)
  case Nil
  then show ?case by simp
next
  case (Cons c cs)
  then have c: "is_digit c" by simp
  then have "unat c - 0x30 < 10"
    by (auto simp: is_digit_def word_le_nat_alt)
  with c Cons show ?case
    by (simp add: digit_of_def digit_val_def)
qed

lemma radix_value_decimal:
  "s \<noteq> [] \<Longrightarrow> list_all is_digit s \<Longrightarrow> radix_value 10 s = Some (dec_value s)"
  by (simp add: radix_value_def dec_value_def radix_digits_decimal)

lemma number_key_digits:
  "s \<noteq> [] \<Longrightarrow> list_all is_digit s \<Longrightarrow> number_key s = to_double (dec_value s) 1"
  by (simp add: number_key_def js_Number_digits)

lemma sort_consistent_digits:
  assumes "\<forall>i \<in> set ids. i \<noteq> [] \<and> list_all is_digit i"
  shows "sort_consistent ids = Some (sort_key number_key ids)"
proof -
  from assms have "None \<notin> set (map js_Number ids)"
    by (auto simp: js_Number_digits)
  then show ?thesis
    by (simp add: sort_consistent_def Let_def)
qed

lemma sortedIds_digits:
  "\<forall>i \<in> set ids. i \<noteq> [] \<and> list_all is_digit i \<Longrightarrow>
   sortedIds engine ids = sort_key number_key ids"
  by (simp add: sortedIds_def sort_consistent_digits)

lemma sort_consistent_perm:
  "sort_consistent ids = Some s \<Longrightarrow> set s = set ids \<and> length s = length ids \<and> distinct s = distinct ids"
  by (auto simp: sort_consistent_def Let_def split: if_splits)

lemma sortedIds_set: "set (sortedIds engine ids) = set ids"
  by (auto simp: sortedIds_def split: option.splits dest: sort_consistent_perm)

lemma sortedIds_distinct: "distinct (sortedIds engine ids) = distinct ids"
  by (auto simp: sortedIds_def split: option.splits dest: sort_consistent_perm)

lemma sortedIds_length: "length (sortedIds engine ids) = length ids"
  by (auto simp: sortedIds_def split: option.splits dest: sort_consistent_perm)

lemma number_key_small:
  "s \<noteq> [] \<Longrightarrow> list_all is_digit s \<Longrightarrow> dec_value s < 2 ^ 53 \<Longrightarrow>
   number_key s = of_nat (dec_value s)"
  using number_key_digits [of s] to_double_exact [of "dec_value s"] by simp

lemma example_ids_sorted:
  "sortedIds engine [js ''500'', js ''3'', js ''42''] = [js ''3'', js ''42'', js ''500'']"
proof -
  have digits: "\<forall>i \<in> set [js ''500'', js ''3'', js ''42'']. i \<noteq> [] \<and> list_all is_digit i"
    by (simp add: js_def is_digit_def)
  have vals: "dec_value (js ''500'') = 500" "dec_value (js ''3'') = 3" "dec_value (js ''42'') = 42"
    by (simp_all add: dec_value_def js_def digit_val_def)
  have keys: "number_key (js ''500'') = 500" "number_key (js ''3'') = 3" "number_key (js ''42'') = 42"
    using digits by (simp_all add: number_key_small vals)
  show ?thesis
    unfolding sortedIds_digits [OF digits] by (simp add: keys)
qed

section \<open>The rendering fed back into the extractor\<close>

lemma extractItemIds_ids:
  "i \<in> set (extractItemIds parser text) \<Longrightarrow> i \<noteq> [] \<and> list_all is_digit i"
  using html_links_digits [of i parser "text"] exec_number_groups [of i None "text"]
    exec_url_groups [of i "text"] exec_item_groups [of i "text"] exec_tsm_groups [of i "text"]
  by (auto simp: set_extractItemIds split: if_splits)

lemma search_Some_suffix: "search p s = Some r \<Longrightarrow> \<exists>pre t. s = pre @ t \<and> p t = Some r"
proof (induction s)
  case Nil
  then show ?case by simp
next
  case (Cons c cs)
  show ?case
  proof (cases "p (c # cs)")
    case None
    with Cons obtain pre t where "cs = pre @ t" "p t = Some r" by auto
    then have "c # cs = (c # pre) @ t \<and> p t = Some r" by simp
    then show ?thesis by blast
  next
    case (Some x)
    with Cons.prems have "c # cs = [] @ (c # cs) \<and> p (c # cs) = Some r" by simp
    then show ?thesis by blast
  qed
qed

lemma search_None_absent:
  assumes "\<And>t r. p t = Some r \<Longrightarrow> \<exists>c \<in> set t. f c" and "\<forall>c \<in> set s. \<not> f c"
  shows "search p s = None"
proof (rule ccontr)
  assume "search p s \<noteq> None"
  then obtain r where "search p s = Some r" by auto
  from search_Some_suffix [OF this] obtain pre t where s: "s = pre @ t" and t: "p t = Some r"
    by auto
  from assms(1) [OF t] obtain c where "c \<in> set t" "f c" by auto
  with s assms(2) show False by auto
qed

lemma isHTML_test_less: "isHTML_test s \<Longrightarrow> 0x3C \<in> set s"
proof (induction s)
  case Nil
  then show ?case by simp
next
  case (Cons c cs)
  then show ?case by (cases cs) auto
qed

lemma match_lit_i_Cons:
  "match_lit_i (p # ps) t = Some r \<Longrightarrow> \<exists>c cs. t = c # cs \<and> canon c = canon p \<and> match_lit_i ps cs = Some r"
  by (cases t) (auto split: if_splits)

lemma wowheadUrlPattern_needs_w:
  "wowheadUrlPattern t = Some r \<Longrightarrow> \<exists>c \<in> set t. canon c = 0x57"
proof -
  assume "wowheadUrlPattern t = Some r"
  then obtain u where "match_lit_i (js ''wowhead.com/'') t = Some u"
    by (auto simp: wowheadUrlPattern_def split: option.splits)
  then obtain c cs where "t = c # cs" "canon c = canon 0x77"
    by (auto simp: js_def dest!: match_lit_i_Cons)
  then show ?thesis by (auto simp: canon_def is_lower_def)
qed

lemma itemFormatPattern_needs_t:
  "itemFormatPattern t = Some r \<Longrightarrow> \<exists>c \<in> set t. canon c = 0x54"
proof -
  assume "itemFormatPattern t = Some r"
  then obtain u where "match_lit_i (js ''item:'') t = Some u"
    by (auto simp: itemFormatPattern_def split: option.splits)
  then obtain c d cs where "t = c # d # cs" "canon d = canon 0x74"
    by (auto simp: js_def dest!: match_lit_i_Cons)
  then show ?thesis by (auto simp: canon_def is_lower_def)
qed

lemma exec_url_absent: "\<forall>c \<in> set s. canon c \<noteq> 0x57 \<Longrightarrow> exec_url s = []"
  using search_None_absent [of wowheadUrlPattern "\<lambda>c. canon c = 0x57" s] wowheadUrlPattern_needs_w
  by (simp add: exec_url.simps [of s])

lemma exec_item_absent: "\<forall>c \<in> set s. canon c \<noteq> 0x54 \<Longrightarrow> exec_item s = []"
  using search_None_absent [of itemFormatPattern "\<lambda>c. canon c = 0x54" s] itemFormatPattern_needs_t
  by (simp add: exec_item.simps [of s])


lemma digits_then:
  assumes "list_all is_digit d" and "r = [] \<or> \<not> is_digit (hd r)"
  shows "takeWhile is_digit (d @ r) = d" and "dropWhile is_digit (d @ r) = r"
proof -
  from assms(1) have all: "\<And>x. x \<in> set d \<Longrightarrow> is_digit x"
    by (simp add: list_all_iff)
  from assms(2) have "takeWhile is_digit r = []" and "dropWhile is_digit r = r"
    by (cases r; simp)+
  with all show "takeWhile is_digit (d @ r) = d" and "dropWhile is_digit (d @ r) = r"
    by (simp_all add: takeWhile_append2 dropWhile_append2)
qed

lemma digits1_then:
  assumes "d \<noteq> []" and "list_all is_digit d" and "r = [] \<or> \<not> is_digit (hd r)"
  shows "digits1 (d @ r) = Some (d, r)"
  using assms digits_then [OF assms(2,3)] by (simp add: digits1_def)

lemma tsmFormatPattern_token:
  assumes "d \<noteq> []" and "list_all is_digit d" and "r = [] \<or> \<not> is_digit (hd r)"
  shows "tsmFormatPattern (js ''i:'' @ d @ r) = Some (d, r)"
  using digits1_then [OF assms] by (simp add: tsmFormatPattern_def js_def)

lemma exec_tsm_token:
  assumes "d \<noteq> []" and "list_all is_digit d" and "r = [] \<or> \<not> is_digit (hd r)"
  shows "exec_tsm (js ''i:'' @ d @ r) = d # exec_tsm r"
proof -
  have "js ''i:'' @ d @ r = 0x69 # 0x3A # d @ r"
    by (simp add: js_def)
  with tsmFormatPattern_token [OF assms]
  have "search tsmFormatPattern (js ''i:'' @ d @ r) = Some (d, r)"
    by simp
  then show ?thesis
    by (simp add: exec_tsm.simps [of "js ''i:'' @ d @ r"])
qed

lemma exec_tsm_Nil: "exec_tsm [] = []"
  by (simp add: exec_tsm.simps [of "[]"] tsmFormatPattern_def js_def)

lemma exec_tsm_comma: "exec_tsm (0x2C # r) = exec_tsm r"
proof -
  have "tsmFormatPattern (0x2C # r) = None"
    by (simp add: tsmFormatPattern_def js_def canon_def is_lower_def)
  then show ?thesis
    by (simp add: exec_tsm.simps [of "0x2C # r"] exec_tsm.simps [of r])
qed

lemma tsmFormat_Cons2:
  "tsmFormat (x # y # ys) = js ''i:'' @ x @ 0x2C # tsmFormat (y # ys)"
  by (simp add: tsmFormat_def js_def)

lemma tsmFormat_single: "tsmFormat [x] = js ''i:'' @ x @ []"
  by (simp add: tsmFormat_def)

lemma tsmFormat_Nil: "tsmFormat [] = []"
  by (simp add: tsmFormat_def)

lemma comma_not_digit: "\<not> is_digit 0x2C"
  by (simp add: is_digit_def)

lemma exec_tsm_tsmFormat:
  "\<forall>i \<in> set ids. i \<noteq> [] \<and> list_all is_digit i \<Longrightarrow> exec_tsm (tsmFormat ids) = ids"
proof (induction ids rule: induct_list012)
  case 1
  show ?case by (simp add: tsmFormat_Nil exec_tsm_Nil)
next
  case (2 x)
  then have "exec_tsm (js ''i:'' @ x @ []) = x # exec_tsm []"
    by (intro exec_tsm_token) simp_all
  then show ?case by (simp only: tsmFormat_single exec_tsm_Nil)
next
  case (3 x y ys)
  then have "exec_tsm (js ''i:'' @ x @ 0x2C # tsmFormat (y # ys)) = x # exec_tsm (0x2C # tsmFormat (y # ys))"
    by (intro exec_tsm_token) (simp_all add: comma_not_digit)
  moreover from 3 have "exec_tsm (tsmFormat (y # ys)) = y # ys"
    by simp
  ultimately show ?case
    by (simp only: tsmFormat_Cons2 exec_tsm_comma)
qed

lemma numberPattern_not_digit: "\<not> is_digit c \<Longrightarrow> numberPattern prev (c # r) = None"
  by (simp add: numberPattern_def digits1_def)

lemma colon_not_word: "\<not> is_word 0x3A"
  by (simp add: is_word_def is_alpha_def is_lower_def is_upper_def is_digit_def)

lemma comma_not_word: "\<not> is_word 0x2C"
  by (simp add: is_word_def is_alpha_def is_lower_def is_upper_def is_digit_def)

lemma numberPattern_token:
  assumes "d \<noteq> []" and "list_all is_digit d" and "r = [] \<or> \<not> is_word (hd r)"
  shows "numberPattern (Some 0x3A) (d @ r) = Some (d, r)"
proof -
  from assms(3) have "r = [] \<or> \<not> is_digit (hd r)"
    by (auto simp: is_word_def)
  from digits1_then [OF assms(1,2) this] assms(3) show ?thesis
    by (cases r) (simp_all add: numberPattern_def word_before_def colon_not_word)
qed

lemma search_b_token:
  assumes "d \<noteq> []" and "list_all is_digit d" and "r = [] \<or> \<not> is_word (hd r)"
  shows "search_b numberPattern prev (js ''i:'' @ d @ r) = Some (d, r)"
proof -
  have i: "\<not> is_digit 0x69" and colon: "\<not> is_digit 0x3A"
    by (simp_all add: is_digit_def)
  from assms(1) obtain c cs where d: "d = c # cs" by (cases d) auto
  have "js ''i:'' @ d @ r = 0x69 # 0x3A # d @ r"
    by (simp add: js_def)
  moreover have "search_b numberPattern (Some 0x3A) (d @ r) = Some (d, r)"
    using numberPattern_token [OF assms] by (simp add: d)
  ultimately show ?thesis
    by (simp add: numberPattern_not_digit [OF i] numberPattern_not_digit [OF colon])
qed

lemma exec_number_token:
  assumes "d \<noteq> []" and "list_all is_digit d" and "r = [] \<or> \<not> is_word (hd r)"
  shows "exec_number prev (js ''i:'' @ d @ r) = d # exec_number (Some (last d)) r"
  using search_b_token [OF assms, of prev]
  by (simp add: exec_number.simps [of prev "js ''i:'' @ d @ r"])

lemma exec_number_Nil: "exec_number prev [] = []"
  by (simp add: exec_number.simps [of prev "[]"] numberPattern_def digits1_def)

lemma exec_number_comma: "exec_number prev (0x2C # r) = exec_number (Some 0x2C) r"
proof -
  have "numberPattern prev (0x2C # r) = None"
    by (rule numberPattern_not_digit) (rule comma_not_digit)
  then show ?thesis
    by (simp add: exec_number.simps [of prev "0x2C # r"] exec_number.simps [of "Some 0x2C" r])
qed

lemma exec_number_tsmFormat:
  "\<forall>i \<in> set ids. i \<noteq> [] \<and> list_all is_digit i \<Longrightarrow> exec_number prev (tsmFormat ids) = ids"
proof (induction ids arbitrary: prev rule: induct_list012)
  case 1
  show ?case by (simp add: tsmFormat_Nil exec_number_Nil)
next
  case (2 x)
  then have "exec_number prev (js ''i:'' @ x @ []) = x # exec_number (Some (last x)) []"
    by (intro exec_number_token) simp_all
  then show ?case by (simp only: tsmFormat_single exec_number_Nil)
next
  case (3 x y ys)
  then have "exec_number prev (js ''i:'' @ x @ 0x2C # tsmFormat (y # ys))
               = x # exec_number (Some (last x)) (0x2C # tsmFormat (y # ys))"
    by (intro exec_number_token) (simp_all add: comma_not_word)
  moreover from 3 have "exec_number (Some 0x2C) (tsmFormat (y # ys)) = y # ys"
    by simp
  ultimately show ?case
    by (simp only: tsmFormat_Cons2 exec_number_comma)
qed


lemma tsmFormat_chars:
  "\<forall>i \<in> set ids. list_all is_digit i \<Longrightarrow>
   \<forall>c \<in> set (tsmFormat ids). c = 0x69 \<or> c = 0x3A \<or> c = 0x2C \<or> is_digit c"
proof (induction ids rule: induct_list012)
  case 1
  show ?case by (simp add: tsmFormat_Nil)
next
  case (2 x)
  then show ?case by (auto simp: tsmFormat_single js_def list_all_iff)
next
  case (3 x y ys)
  then have "\<forall>c \<in> set (tsmFormat (y # ys)). c = 0x69 \<or> c = 0x3A \<or> c = 0x2C \<or> is_digit c"
    by simp
  moreover from 3 have "\<forall>c \<in> set x. is_digit c"
    by (simp add: list_all_iff)
  ultimately show ?case
    unfolding tsmFormat_Cons2 by (auto simp: js_def)
qed

lemma tsmFormat_scans:
  assumes "\<forall>i \<in> set ids. i \<noteq> [] \<and> list_all is_digit i"
  shows "\<not> isHTML_test (tsmFormat ids)" and "exec_url (tsmFormat ids) = []"
    and "exec_item (tsmFormat ids) = []"
proof -
  from assms have chars:
    "\<forall>c \<in> set (tsmFormat ids). c = 0x69 \<or> c = 0x3A \<or> c = 0x2C \<or> is_digit c"
    by (intro tsmFormat_chars) simp
  have "\<not> (0x3C = (0x69 :: jschar) \<or> 0x3C = (0x3A :: jschar) \<or> 0x3C = (0x2C :: jschar) \<or> is_digit 0x3C)"
    by (simp add: is_digit_def)
  with chars have "0x3C \<notin> set (tsmFormat ids)" by blast
  then show "\<not> isHTML_test (tsmFormat ids)"
    using isHTML_test_less by blast
  have canon: "canon c \<noteq> 0x57 \<and> canon c \<noteq> 0x54"
    if "c = 0x69 \<or> c = 0x3A \<or> c = 0x2C \<or> is_digit c" for c
  proof -
    have "canon c = 0x49 \<or> canon c = c \<and> \<not> is_lower c"
      using that by (auto simp: canon_def is_lower_def is_digit_def word_le_nat_alt)
    with that show ?thesis
      by (auto simp: is_digit_def is_lower_def word_le_nat_alt)
  qed
  with chars show "exec_url (tsmFormat ids) = []"
    by (intro exec_url_absent) blast
  from canon chars show "exec_item (tsmFormat ids) = []"
    by (intro exec_item_absent) blast
qed

lemma add_all_fresh: "distinct (s @ gs) \<Longrightarrow> add_all gs s = s @ gs"
  unfolding add_all_def by (induction gs arbitrary: s) (auto simp: set_add_def)

lemma add_all_known: "set gs \<subseteq> set s \<Longrightarrow> add_all gs s = s"
  unfolding add_all_def by (induction gs arbitrary: s) (auto simp: set_add_def)

lemma extractItemIds_tsmFormat:
  assumes "distinct ids" and "\<forall>i \<in> set ids. i \<noteq> [] \<and> list_all is_digit i"
  shows "extractItemIds parser (tsmFormat ids) = ids"
proof -
  note scans = tsmFormat_scans [OF assms(2)]
  have "add_all (exec_url (tsmFormat ids)) [] = []"
    by (simp add: scans add_all_def)
  moreover have "add_all (exec_number None (tsmFormat ids)) [] = ids"
    using assms by (simp add: exec_number_tsmFormat add_all_fresh)
  moreover have "add_all (exec_item (tsmFormat ids)) ids = ids"
    by (simp add: scans add_all_def)
  moreover have "add_all (exec_tsm (tsmFormat ids)) ids = ids"
    using assms by (simp add: exec_tsm_tsmFormat add_all_known)
  ultimately show ?thesis
    by (simp add: extractItemIds_def Let_def scans(1))
qed

text \<open>
  Claim C2. For every input text, the set of \<^verbatim>\<open>extractItemIds\<close> rendered as the list of
  \<^verbatim>\<open>i:<id>\<close> tokens joined by commas, sorted as \<^verbatim>\<open>convertToTSM\<close> renders it or in the order
  of the set, and fed back into \<^verbatim>\<open>extractItemIds\<close> gives exactly the same set of ID
  strings; the second extraction finds them in the order of the rendering.
\<close>

theorem extractItemIds_idempotent:
  "set (extractItemIds parser' (tsmFormat (sortedIds engine (extractItemIds parser text))))
     = set (extractItemIds parser text)
   \<and> extractItemIds parser' (tsmFormat (sortedIds engine (extractItemIds parser text)))
     = sortedIds engine (extractItemIds parser text)
   \<and> extractItemIds parser' (tsmFormat (extractItemIds parser text))
     = extractItemIds parser text"
proof -
  let ?ids = "extractItemIds parser text"
  have ids: "distinct ?ids" "\<forall>i \<in> set ?ids. i \<noteq> [] \<and> list_all is_digit i"
    using distinct_extractItemIds [of parser "text"] extractItemIds_ids [of _ parser "text"]
    by blast+
  then have sorted: "distinct (sortedIds engine ?ids)"
    "\<forall>i \<in> set (sortedIds engine ?ids). i \<noteq> [] \<and> list_all is_digit i"
    by (simp_all add: sortedIds_set sortedIds_distinct)
  have "extractItemIds parser' (tsmFormat (sortedIds engine ?ids)) = sortedIds engine ?ids"
    using sorted by (rule extractItemIds_tsmFormat)
  moreover have "extractItemIds parser' (tsmFormat ?ids) = ?ids"
    using ids by (rule extractItemIds_tsmFormat)
  ultimately show ?thesis
    by (simp add: sortedIds_set)
qed

theorem extractItemIds_idempotent_witness:
  "tsmFormat (sortedIds (\<lambda>ids i. 0) (extractItemIds (\<lambda>t. None) (js ''item:500, 3 i:42''))) = js ''i:3,i:42,i:500''
   \<and> set (extractItemIds (\<lambda>t. None) (js ''i:3,i:42,i:500''))
       = set (extractItemIds (\<lambda>t. None) (js ''item:500, 3 i:42''))"
proof -
  have ids: "extractItemIds (\<lambda>t. None) (js ''item:500, 3 i:42'') = [js ''500'', js ''3'', js ''42'']"
    by code_simp
  have "tsmFormat [js ''3'', js ''42'', js ''500''] = js ''i:3,i:42,i:500''"
    by (simp add: tsmFormat_def js_def)
  then have rendered:
    "tsmFormat (sortedIds (\<lambda>ids i. 0) (extractItemIds (\<lambda>t. None) (js ''item:500, 3 i:42''))) = js ''i:3,i:42,i:500''"
    by (simp only: ids example_ids_sorted)
  from extractItemIds_idempotent [of "\<lambda>t. None" "\<lambda>ids i. 0" "\<lambda>t. None" "js ''item:500, 3 i:42''"]
  have "set (extractItemIds (\<lambda>t. None)
              (tsmFormat (sortedIds (\<lambda>ids i. 0) (extractItemIds (\<lambda>t. None) (js ''item:500, 3 i:42'')))))
          = set (extractItemIds (\<lambda>t. None) (js ''item:500, 3 i:42''))"
    by (rule conjunct1)
  then have "set (extractItemIds (\<lambda>t. None) (js ''i:3,i:42,i:500''))
          = set (extractItemIds (\<lambda>t. None) (js ''item:500, 3 i:42''))"
    by (simp only: rendered)
  with rendered show ?thesis by blast
qed

section \<open>Properties of the sorting and the rendering\<close>

lemma split_on_not_Nil: "split_on sep s \<noteq> []"
  by (induction s) (auto split: list.splits)

lemma split_on_token: "sep \<notin> set t \<Longrightarrow> split_on sep t = [t]"
  by (induction t) auto

lemma split_on_append: "sep \<notin> set t \<Longrightarrow> split_on sep (t @ sep # r) = t # split_on sep r"
  by (induction t) auto

lemma split_on_join:
  "toks \<noteq> [] \<Longrightarrow> \<forall>t \<in> set toks. sep \<notin> set t \<Longrightarrow> split_on sep (join [sep] toks) = toks"
proof (induction toks rule: induct_list012)
  case 1
  then show ?case by simp
next
  case (2 x)
  then show ?case by (simp add: split_on_token)
next
  case (3 x y ys)
  then show ?case by (simp add: split_on_append)
qed

lemma tsmFormat_no_space:
  assumes "\<forall>i \<in> set ids. list_all is_digit i"
  shows "\<forall>c \<in> set (tsmFormat ids). \<not> is_space c"
proof
  fix c
  assume "c \<in> set (tsmFormat ids)"
  with tsmFormat_chars [OF assms] have "c = 0x69 \<or> c = 0x3A \<or> c = 0x2C \<or> is_digit c"
    by blast
  moreover have "\<not> is_space 0x69" "\<not> is_space 0x3A" "\<not> is_space 0x2C"
    by (simp_all add: is_space_def)
  ultimately show "\<not> is_space c"
    using digit_not_space by blast
qed

lemma tsmFormat_split:
  assumes "ids \<noteq> []" and "\<forall>i \<in> set ids. list_all is_digit i"
  shows "split_on 0x2C (tsmFormat ids) = map (\<lambda>i. js ''i:'' @ i) ids"
proof -
  have "0x2C \<notin> set (js ''i:'' @ i)" if "i \<in> set ids" for i
  proof -
    from that assms(2) have "\<forall>c \<in> set i. is_digit c"
      by (simp add: list_all_iff)
    then have "0x2C \<notin> set i"
      using comma_not_digit by blast
    then show ?thesis by (simp add: js_def)
  qed
  then have "\<forall>t \<in> set (map (\<lambda>i. js ''i:'' @ i) ids). 0x2C \<notin> set t"
    by auto
  moreover have "map (\<lambda>i. js ''i:'' @ i) ids \<noteq> []"
    using assms(1) by simp
  moreover have "js '','' = [0x2C]"
    by (simp add: js_def)
  ultimately show ?thesis
    unfolding tsmFormat_def by (simp add: split_on_join)
qed

lemma sortedIds_Number_order:
  assumes "\<forall>i \<in> set ids. i \<noteq> [] \<and> list_all is_digit i"
  shows "sorted_wrt (\<lambda>a b. \<exists>x y. js_Number a = Some x \<and> js_Number b = Some y \<and> x \<le> y)
           (sortedIds engine ids)"
proof -
  have "sorted (map number_key (sort_key number_key ids))"
    by simp
  then have "sorted_wrt (\<lambda>a b. number_key a \<le> number_key b) (sort_key number_key ids)"
    by (simp add: sorted_map)
  moreover have "\<exists>x y. js_Number a = Some x \<and> js_Number b = Some y \<and> x \<le> y"
    if "a \<in> set (sort_key number_key ids)" "b \<in> set (sort_key number_key ids)"
      "number_key a \<le> number_key b" for a b
    using that assms by (auto simp: number_key_def js_Number_digits)
  ultimately have "sorted_wrt (\<lambda>a b. \<exists>x y. js_Number a = Some x \<and> js_Number b = Some y \<and> x \<le> y)
                     (sort_key number_key ids)"
    by (rule sorted_wrt_mono_rel [rotated])
  then show ?thesis
    by (simp add: sortedIds_digits [OF assms])
qed

lemma sortedIds_exact:
  assumes "\<forall>i \<in> set ids. i \<noteq> [] \<and> list_all is_digit i"
    and "\<forall>i \<in> set ids. dec_value i < 2 ^ 53"
  shows "sorted (map dec_value (sortedIds engine ids))"
proof -
  have key: "number_key i = rat_of_nat (dec_value i)" if "i \<in> set ids" for i
    using that assms by (simp add: number_key_small)
  have "sorted (map number_key (sort_key number_key ids))"
    by simp
  then have "sorted_wrt (\<lambda>a b. number_key a \<le> number_key b) (sort_key number_key ids)"
    by (simp add: sorted_map)
  moreover have "dec_value a \<le> dec_value b"
    if "a \<in> set (sort_key number_key ids)" "b \<in> set (sort_key number_key ids)"
      "number_key a \<le> number_key b" for a b
    using that key [of a] key [of b] by simp
  ultimately have "sorted_wrt (\<lambda>a b. dec_value a \<le> dec_value b) (sort_key number_key ids)"
    by (rule sorted_wrt_mono_rel [rotated])
  then show ?thesis
    by (simp add: sortedIds_digits [OF assms(1)] sorted_map)
qed

lemma large_ids_extracted:
  "extractItemIds parser (js ''9007199254740993 9007199254740992'')
     = [js ''9007199254740993'', js ''9007199254740992'']"
  by code_simp

lemma large_ids_values:
  "dec_value (js ''9007199254740993'') = 9007199254740993"
  "dec_value (js ''9007199254740992'') = 9007199254740992"
  by (simp_all add: dec_value_def js_def digit_val_def)

lemma large_ids_Number:
  "js_Number (js ''9007199254740993'') = Some 9007199254740992"
  "js_Number (js ''9007199254740992'') = Some 9007199254740992"
proof -
  have bits: "bitlen 9007199254740993 = 54" "bitlen 9007199254740992 = 54" "bitlen (Suc 0) = 1"
    by (simp_all add: bitlen.simps)
  have "to_double 9007199254740993 (Suc 0) = 9007199254740992"
    by (simp add: to_double_def ilog2_def bits Let_def double_infinity_def)
  moreover have "to_double 9007199254740992 (Suc 0) = 9007199254740992"
    by (simp add: to_double_def ilog2_def bits Let_def double_infinity_def)
  moreover have "js ''9007199254740993'' \<noteq> [] \<and> list_all is_digit (js ''9007199254740993'')"
    "js ''9007199254740992'' \<noteq> [] \<and> list_all is_digit (js ''9007199254740992'')"
    by (simp_all add: js_def is_digit_def)
  ultimately show "js_Number (js ''9007199254740993'') = Some 9007199254740992"
    "js_Number (js ''9007199254740992'') = Some 9007199254740992"
    by (simp_all add: js_Number_digits large_ids_values)
qed

lemma small_ids_Number:
  "js_Number (js ''3'') = Some 3" "js_Number (js ''-5'') = Some (- 5)"
proof -
  have digits: "js ''3'' \<noteq> []" "list_all is_digit (js ''3'')" "js ''5'' \<noteq> []" "list_all is_digit (js ''5'')"
    by (simp_all add: js_def is_digit_def)
  have vals: "dec_value (js ''3'') = 3" "dec_value (js ''5'') = 5"
    by (simp_all add: dec_value_def js_def digit_val_def)
  have exact: "to_double 3 (Suc 0) = 3" "to_double 5 (Suc 0) = 5"
    using to_double_exact [of 3] to_double_exact [of 5] by simp_all
  show "js_Number (js ''3'') = Some 3"
    using js_Number_digits [OF digits(1,2)] by (simp add: vals exact)
  have "trim (js ''-5'') = 0x2D # js ''5''"
    by (simp add: trim_def js_def is_space_def)
  then show "js_Number (js ''-5'') = Some (- 5)"
    using unsigned_decimal_digits [OF digits(3,4)]
    by (simp add: js_Number_def vals exact)
qed

lemma negative_id_found:
  "first_entry itemName [Obj [(js ''id'', Num (js ''-5''))]]
     = Inr (Some (Found (js ''-5'') itemName (Str itemName)))"
  by (simp add: first_entry_def js_def)

text \<open>
  Two final sets that the code can reach. The IDs \<^verbatim>\<open>9007199254740993\<close> and
  \<^verbatim>\<open>9007199254740992\<close>, found in this order, have the same value as doubles, so the sort
  leaves them as they are: the output is not in ascending numeric order. And the \<^verbatim>\<open>id\<close> of
  a parsed search result is merged as \<^verbatim>\<open>toString()\<close> gives it: with the ID \<^verbatim>\<open>3\<close> of the
  input and a search result whose \<^verbatim>\<open>id\<close> is the number -5, the output is \<^verbatim>\<open>i:-5,i:3\<close>, whose
  first token is not \<^verbatim>\<open>i:\<close> and decimal digits.
\<close>

theorem tsmFormat_large_ids_counterexample:
  "sort_consistent [js ''9007199254740993'', js ''9007199254740992'']
     = Some [js ''9007199254740993'', js ''9007199254740992'']
   \<and> tsmFormat [js ''9007199254740993'', js ''9007199254740992'']
     = js ''i:9007199254740993,i:9007199254740992''
   \<and> dec_value (js ''9007199254740992'') < dec_value (js ''9007199254740993'')
   \<and> first_entry (js ''Sword'') [Obj [(js ''id'', Num (js ''-5''))]]
     = Inr (Some (Found (js ''-5'') (js ''Sword'') (Str (js ''Sword''))))
   \<and> sort_consistent [js ''3'', js ''-5''] = Some [js ''-5'', js ''3'']
   \<and> tsmFormat [js ''-5'', js ''3''] = js ''i:-5,i:3''
   \<and> \<not> list_all is_digit (js ''-5'')"
proof -
  have "sort_consistent [js ''9007199254740993'', js ''9007199254740992'']
          = Some [js ''9007199254740993'', js ''9007199254740992'']"
    by (simp add: sort_consistent_def number_key_def large_ids_Number)
  moreover have "tsmFormat [js ''9007199254740993'', js ''9007199254740992'']
          = js ''i:9007199254740993,i:9007199254740992''"
    by (simp add: tsmFormat_def js_def)
  moreover have "sort_consistent [js ''3'', js ''-5''] = Some [js ''-5'', js ''3'']"
    by (simp add: sort_consistent_def number_key_def small_ids_Number)
  moreover have "tsmFormat [js ''-5'', js ''3''] = js ''i:-5,i:3''"
    by (simp add: tsmFormat_def js_def)
  moreover have "\<not> list_all is_digit (js ''-5'')"
    by (simp add: js_def is_digit_def)
  ultimately show ?thesis
    using negative_id_found [of "js ''Sword''"] by (simp add: large_ids_values)
qed

section \<open>Properties of searchWowheadForItemName\<close>

text \<open>
  Whatever \<^verbatim>\<open>fetch\<close> and \<^verbatim>\<open>JSON.parse\<close> do, the function returns a value for every name
  that \<^verbatim>\<open>encodeURIComponent\<close> accepts, among them every name without surrogates, and it
  is rejected exactly when \<^verbatim>\<open>encodeURIComponent\<close> throws on the name.
\<close>

lemma encodeURIComponent_no_surrogate:
  "\<forall>c \<in> set s. \<not> is_lead c \<and> \<not> is_trail c \<Longrightarrow> \<exists>e. encodeURIComponent s = Inr e"
  by (induction s) auto

lemma searchWowheadForItemName_returns:
  "encodeURIComponent itemName = Inr e \<Longrightarrow>
   \<exists>r. searchWowheadForItemName fetch parse itemName = Inr r"
  by (simp add: searchWowheadForItemName_def Let_def split: sum.splits)

lemma searchWowheadForItemName_rejects:
  "searchWowheadForItemName fetch parse itemName = Inl e \<longleftrightarrow> encodeURIComponent itemName = Inl e"
  by (simp add: searchWowheadForItemName_def Let_def split: sum.splits)

lemma first_entry_Found:
  "first_entry itemName data = Inr (Some r) \<Longrightarrow> \<exists>i f. r = Found i itemName f"
  by (auto simp: first_entry_def split: list.splits sum.splits if_splits option.splits)

lemma listview_entry_Found:
  "listview_entry parse itemName html = Some r \<Longrightarrow> \<exists>i f. r = Found i itemName f"
  by (auto simp: listview_entry_def split: option.splits sum.splits dest: first_entry_Found)

lemma scan_response_NotFound:
  "scan_response parse itemName url html = NotFound n m u \<Longrightarrow> n = itemName \<and> u = url"
  by (auto simp: scan_response_def split: option.splits prod.splits dest: listview_entry_Found)

lemma try_block_NotFound:
  "try_block fetch parse itemName url = Inr (NotFound n m u) \<Longrightarrow> n = itemName \<and> u = url"
  by (auto simp: try_block_def split: sum.splits fetch_outcome.splits if_splits
           dest: scan_response_NotFound)

lemma searchWowheadForItemName_NotFound:
  assumes "searchWowheadForItemName fetch parse itemName = Inr (NotFound n m u)"
  shows "n = itemName \<and>
         (\<exists>e. encodeURIComponent itemName = Inr e
              \<and> u = js ''https://www.wowhead.com/items?filter=na='' @ e)"
proof (cases "encodeURIComponent itemName")
  case (Inl e)
  with assms show ?thesis by (simp add: searchWowheadForItemName_def)
next
  case (Inr e)
  with assms show ?thesis
    by (auto simp: searchWowheadForItemName_def Let_def split: sum.splits
             dest: try_block_NotFound)
qed

lemma lone_surrogate_throws: "encodeURIComponent [0xD800] = Inl URIError"
  by (simp add: unreserved_def is_alpha_def is_lower_def is_upper_def is_digit_def
                is_trail_def is_lead_def)

lemma lone_surrogate_name: "extractItemNames [0x5B, 0xD800, 0x5D] = [[0xD800]]"
  by code_simp

text \<open>
  Claim C5. The resolver is to return a value, found or not found, for every item name
  and every behaviour of \<^verbatim>\<open>fetch\<close>, and never to let an exception reach its caller. For
  the name that is one lone surrogate, \<^verbatim>\<open>encodeURIComponent(itemName)\<close> on line 66 throws
  a \<^verbatim>\<open>URIError\<close> before the \<^verbatim>\<open>try\<close> block of line 68 is entered: the resolver is rejected
  whatever \<^verbatim>\<open>fetch\<close> does, and \<^verbatim>\<open>convertToTSM\<close>, which finds this name in the input
  \<^verbatim>\<open>[\uD800]\<close> and does not catch, ends with the exception.
\<close>

theorem searchWowheadForItemName_lone_surrogate:
  "searchWowheadForItemName fetch parse [0xD800] = Inl URIError
   \<and> extractItemNames [0x5B, 0xD800, 0x5D] = [[0xD800]]
   \<and> snd (convertToTSM parser net parse engine (pg\<lparr>input_value := [0x5B, 0xD800, 0x5D]\<rparr>)) = Some URIError"
proof -
  have resolver: "searchWowheadForItemName f parse [0xD800] = Inl URIError" for f
    by (simp only: searchWowheadForItemName_def lone_surrogate_throws sum.case)
  have "\<not> list_all is_space [0x5B, 0xD800, 0x5D]"
    by (simp add: is_space_def)
  then have "snd (convertToTSM parser net parse engine (pg\<lparr>input_value := [0x5B, 0xD800, 0x5D]\<rparr>))
               = Some URIError"
    by (simp add: convertToTSM_def Let_def lone_surrogate_name resolver)
  with resolver lone_surrogate_name show ?thesis by blast
qed


section \<open>Properties of convertToTSM\<close>

lemma set_add_not_Nil: "set_add x s \<noteq> []"
  by (auto simp: set_add_def)

lemma resolve_all_failed:
  assumes "resolve_all net parse k names (ids0, failed0, found0) = Inr (ids, failed, found)"
  shows "(ids = [] \<longrightarrow> ids0 = [] \<and> found = found0 \<and> map fst failed = map fst failed0 @ names)
         \<and> (\<forall>(n, u) \<in> set failed. (n, u) \<in> set failed0 \<or>
               (\<exists>e. encodeURIComponent n = Inr e
                    \<and> u = js ''https://www.wowhead.com/items?filter=na='' @ e))
         \<and> length failed + length found = length failed0 + length found0 + length names"
  using assms
proof (induction names arbitrary: k ids0 failed0 found0)
  case Nil
  then show ?case by auto
next
  case (Cons itemName rest)
  show ?case
  proof (cases "searchWowheadForItemName (net k) parse itemName")
    case (Inl e)
    with Cons.prems show ?thesis by simp
  next
    case (Inr r)
    show ?thesis
    proof (cases r)
      case (Found i searched f)
      with Inr Cons.prems
      have "resolve_all net parse (Suc k) rest (set_add i ids0, failed0, found0 @ [(searched, f, i)])
              = Inr (ids, failed, found)"
        by simp
      from Cons.IH [OF this] show ?thesis
        by (auto simp: set_add_not_Nil)
    next
      case (NotFound n m u)
      with Inr Cons.prems
      have "resolve_all net parse (Suc k) rest (ids0, failed0 @ [(itemName, u)], found0)
              = Inr (ids, failed, found)"
        by simp
      from Cons.IH [OF this] searchWowheadForItemName_NotFound [of "net k" parse itemName n m u]
        Inr NotFound
      show ?thesis by auto
    qed
  qed
qed

lemma join_contains: "x \<in> set xs \<Longrightarrow> \<exists>a b. join sep xs = a @ x @ b"
proof (induction xs rule: induct_list012)
  case 1
  then show ?case by simp
next
  case (2 y)
  then have "join sep [y] = [] @ x @ []" by simp
  then show ?case by blast
next
  case (3 y z zs)
  show ?case
  proof (cases "x = y")
    case True
    then have "join sep (y # z # zs) = [] @ x @ (sep @ join sep (z # zs))" by simp
    then show ?thesis by blast
  next
    case False
    with 3 obtain a b where "join sep (z # zs) = a @ x @ b" by auto
    then have "join sep (y # z # zs) = (y @ sep @ a) @ x @ b" by simp
    then show ?thesis by blast
  qed
qed

lemma manual_search_message_text:
  \<open>manual_search_message failedSearches =
     js ''Could not automatically find items. Try searching manually: ''
       @ join (js '', '')
           (map (\<lambda>(n, u). js ''<a href="'' @ u
                            @ js ''" target="_blank" style="color: #58a6ff;">''
                            @ escapeHtml n @ js ''</a>'') failedSearches)
       @ js ''. Note: Automatic search may be blocked by ad blockers or browser extensions.''\<close>
proof -
  have \<open>search_link = (\<lambda>(n, u). js ''<a href="'' @ u
                            @ js ''" target="_blank" style="color: #58a6ff;">''
                            @ escapeHtml n @ js ''</a>'')\<close>
    by (rule ext) (simp add: search_link_def split: prod.splits)
  then show ?thesis
    by (simp add: manual_search_message_def formatSearchLinks_def)
qed

lemma manual_search_message_links:
  assumes "(n, u) \<in> set failedSearches"
  shows \<open>\<exists>a b. manual_search_message failedSearches =
           a @ js ''<a href="'' @ u @ js ''" target="_blank" style="color: #58a6ff;">''
             @ escapeHtml n @ js ''</a>'' @ b\<close>
proof -
  from assms have "search_link (n, u) \<in> set (map search_link failedSearches)"
    by force
  from join_contains [OF this] obtain a b
    where "formatSearchLinks failedSearches = a @ search_link (n, u) @ b"
    unfolding formatSearchLinks_def by blast
  then have \<open>manual_search_message failedSearches =
      (js ''Could not automatically find items. Try searching manually: '' @ a)
      @ js ''<a href="'' @ u @ js ''" target="_blank" style="color: #58a6ff;">''
      @ escapeHtml n @ js ''</a>''
      @ (b @ js ''. Note: Automatic search may be blocked by ad blockers or browser extensions.'')\<close>
    by (simp add: manual_search_message_def search_link_def)
  then show ?thesis by blast
qed

lemma messages_differ: "manual_search_message failedSearches \<noteq> no_ids_message"
  by (simp add: manual_search_message_def no_ids_message_def js_def)

lemma sortedIds_Nil: "sortedIds engine [] = []"
  by (simp add: sortedIds_def sort_consistent_def)

lemma render_result_empty:
  "render_result engine pg ([], failedSearches, foundItems) =
     (pg\<lparr>shown := Some \<lparr>msg_text = (if failedSearches \<noteq> []
                                          then manual_search_message failedSearches
                                          else no_ids_message),
                           msg_type = MsgError,
                           msg_html = (failedSearches \<noteq> [])\<rparr>,
          output_value := [], itemCount_text := js ''0'', uniqueCount_text := js ''0''\<rparr>,
      None)"
  by (simp add: render_result_def sortedIds_Nil clear_result_def showMessage_def)

lemma render_result_output:
  assumes "itemIds \<noteq> []"
  shows "output_value (fst (render_result engine pg (itemIds, failedSearches, foundItems)))
           = tsmFormat (sortedIds engine itemIds)"
proof -
  from assms have "length (sortedIds engine itemIds) \<noteq> 0"
    by (simp add: sortedIds_length)
  then show ?thesis
    by (simp add: render_result_def Let_def showMessage_def split: option.splits)
qed

lemma convertToTSM_resolved:
  assumes "\<not> list_all is_space (input_value pg)"
    and "resolve_all net parse 0 (extractItemNames (input_value pg))
           (extractItemIds parser (input_value pg), [], []) = Inr acc"
  shows "convertToTSM parser net parse engine pg =
           render_result engine
             (if extractItemNames (input_value pg) \<noteq> []
              then showMessage (searching_message (length (extractItemNames (input_value pg))))
                     MsgInfo False pg
              else pg) acc"
  using assms by (simp add: convertToTSM_def Let_def)

lemma resolve_all_ids:
  assumes "resolve_all net parse k names (ids0, failed0, found0) = Inr (ids, failed, found)"
  shows "\<exists>new. found = found0 @ new \<and> set ids = set ids0 \<union> (\<lambda>(searched, f, i). i) ` set new"
  using assms
proof (induction names arbitrary: k ids0 failed0 found0)
  case Nil
  then show ?case by auto
next
  case (Cons itemName rest)
  show ?case
  proof (cases "searchWowheadForItemName (net k) parse itemName")
    case (Inl e)
    with Cons.prems show ?thesis by simp
  next
    case (Inr r)
    show ?thesis
    proof (cases r)
      case (Found i searched f)
      with Inr Cons.prems
      have "resolve_all net parse (Suc k) rest (set_add i ids0, failed0, found0 @ [(searched, f, i)])
              = Inr (ids, failed, found)"
        by simp
      from Cons.IH [OF this] obtain new
        where "found = (found0 @ [(searched, f, i)]) @ new"
          and "set ids = set (set_add i ids0) \<union> (\<lambda>(searched, f, i). i) ` set new"
        by blast
      then have "found = found0 @ ((searched, f, i) # new)
                 \<and> set ids = set ids0 \<union> (\<lambda>(searched, f, i). i) ` set ((searched, f, i) # new)"
        by (auto simp: set_set_add)
      then show ?thesis by blast
    next
      case (NotFound n m u)
      with Inr Cons.prems
      have "resolve_all net parse (Suc k) rest (ids0, failed0 @ [(itemName, u)], found0)
              = Inr (ids, failed, found)"
        by simp
      from Cons.IH [OF this] show ?thesis .
    qed
  qed
qed

lemma resolve_all_distinct:
  assumes "resolve_all net parse k names (ids0, failed0, found0) = Inr (ids, failed, found)"
    and "distinct ids0"
  shows "distinct ids"
  using assms
proof (induction names arbitrary: k ids0 failed0 found0)
  case Nil
  then show ?case by auto
next
  case (Cons itemName rest)
  show ?case
  proof (cases "searchWowheadForItemName (net k) parse itemName")
    case (Inl e)
    with Cons.prems show ?thesis by simp
  next
    case (Inr r)
    show ?thesis
    proof (cases r)
      case (Found i searched f)
      with Inr Cons.prems
      have "resolve_all net parse (Suc k) rest (set_add i ids0, failed0, found0 @ [(searched, f, i)])
              = Inr (ids, failed, found)"
        by simp
      from Cons.IH [OF this] Cons.prems(2) show ?thesis
        by (simp add: distinct_set_add)
    next
      case (NotFound n m u)
      with Inr Cons.prems
      have "resolve_all net parse (Suc k) rest (ids0, failed0 @ [(itemName, u)], found0)
              = Inr (ids, failed, found)"
        by simp
      from Cons.IH [OF this] Cons.prems(2) show ?thesis .
    qed
  qed
qed

lemma scan_response_fallback_digits:
  assumes "listview_entry parse itemName html = None"
    and "scan_response parse itemName url html = Found i searched f"
  shows "i \<noteq> [] \<and> list_all is_digit i"
proof -
  from assms obtain rest where "search itemIdPattern html = Some (i, rest)"
    by (auto simp: scan_response_def split: option.splits)
  then obtain t where "itemIdPattern t = Some (i, rest)"
    by (auto dest: search_SomeD)
  then show ?thesis
    by (auto simp: itemIdPattern_def split: option.splits list.splits if_splits
             dest: digits1_group)
qed

text \<open>
  Claim C9. Let the input be more than white space and let every lookup return, so that
  the function comes to the final set, and let this set be empty. If at least one name
  failed to resolve, the message shown is the failure message, of type error: its text
  is the fixed opening, then, for every failed name and separated by commas, the link
  \<^verbatim>\<open><a href="URL" target="_blank" style="color: #58a6ff;">NAME</a>\<close> with the URL of the
  manual search for the name and the escaped name, then the fixed closing. The failed
  names are then all the bracketed names of the input, in their order. If no lookup
  failed, the message is the different text that no valid item IDs were found, of type
  error too. In both cases the output is empty, both counts are \<^verbatim>\<open>0\<close>, and the function
  ends normally.
\<close>

theorem convertToTSM_empty_result:
  assumes "\<not> list_all is_space (input_value pg)"
    and "resolve_all net parse 0 (extractItemNames (input_value pg))
           (extractItemIds parser (input_value pg), [], []) = Inr ([], failedSearches, foundItems)"
  shows \<open>(failedSearches \<noteq> [] \<longrightarrow>
            shown (fst (convertToTSM parser net parse engine pg)) =
              Some \<lparr>msg_text =
                      js ''Could not automatically find items. Try searching manually: ''
                      @ join (js '', '')
                          (map (\<lambda>(n, u). js ''<a href="'' @ u
                                  @ js ''" target="_blank" style="color: #58a6ff;">''
                                  @ escapeHtml n @ js ''</a>'') failedSearches)
                      @ js ''. Note: Automatic search may be blocked by ad blockers or browser extensions.'',
                    msg_type = MsgError, msg_html = True\<rparr>)
         \<and> (failedSearches = [] \<longrightarrow>
            shown (fst (convertToTSM parser net parse engine pg)) =
              Some \<lparr>msg_text = js ''No valid item IDs found in the input'',
                    msg_type = MsgError, msg_html = False\<rparr>)
         \<and> manual_search_message failedSearches \<noteq> no_ids_message
         \<and> output_value (fst (convertToTSM parser net parse engine pg)) = []
         \<and> itemCount_text (fst (convertToTSM parser net parse engine pg)) = js ''0''
         \<and> uniqueCount_text (fst (convertToTSM parser net parse engine pg)) = js ''0''
         \<and> snd (convertToTSM parser net parse engine pg) = None
         \<and> map fst failedSearches = extractItemNames (input_value pg)
         \<and> (\<forall>(n, u) \<in> set failedSearches.
               \<exists>a b. manual_search_message failedSearches =
                 a @ js ''<a href="'' @ u @ js ''" target="_blank" style="color: #58a6ff;">''
                   @ escapeHtml n @ js ''</a>'' @ b)
         \<and> (\<forall>(n, u) \<in> set failedSearches.
               \<exists>e. encodeURIComponent n = Inr e
                   \<and> u = js ''https://www.wowhead.com/items?filter=na='' @ e)\<close>
proof -
  have page: "convertToTSM parser net parse engine pg =
      (pg\<lparr>shown := Some \<lparr>msg_text = (if failedSearches \<noteq> []
                                           then manual_search_message failedSearches
                                           else no_ids_message),
                            msg_type = MsgError,
                            msg_html = (failedSearches \<noteq> [])\<rparr>,
           output_value := [], itemCount_text := js ''0'', uniqueCount_text := js ''0''\<rparr>,
       None)"
    unfolding convertToTSM_resolved [OF assms] render_result_empty
    by (simp add: showMessage_def)
  from resolve_all_failed [OF assms(2)]
  have names: "map fst failedSearches = extractItemNames (input_value pg)"
    and urls: "\<forall>(n, u) \<in> set failedSearches.
                 \<exists>e. encodeURIComponent n = Inr e
                     \<and> u = js ''https://www.wowhead.com/items?filter=na='' @ e"
    by auto
  have links: \<open>\<forall>(n, u) \<in> set failedSearches.
               \<exists>a b. manual_search_message failedSearches =
                 a @ js ''<a href="'' @ u @ js ''" target="_blank" style="color: #58a6ff;">''
                   @ escapeHtml n @ js ''</a>'' @ b\<close>
    using manual_search_message_links by blast
  have shown_failed: \<open>shown (fst (convertToTSM parser net parse engine pg)) =
              Some \<lparr>msg_text =
                      js ''Could not automatically find items. Try searching manually: ''
                      @ join (js '', '')
                          (map (\<lambda>(n, u). js ''<a href="'' @ u
                                  @ js ''" target="_blank" style="color: #58a6ff;">''
                                  @ escapeHtml n @ js ''</a>'') failedSearches)
                      @ js ''. Note: Automatic search may be blocked by ad blockers or browser extensions.'',
                    msg_type = MsgError, msg_html = True\<rparr>\<close>
    if "failedSearches \<noteq> []"
    using that unfolding page manual_search_message_text [symmetric] by simp
  have shown_none: "shown (fst (convertToTSM parser net parse engine pg)) =
              Some \<lparr>msg_text = js ''No valid item IDs found in the input'',
                    msg_type = MsgError, msg_html = False\<rparr>"
    if "failedSearches = []"
    using that unfolding page by (simp add: no_ids_message_def)
  from page have rest: "output_value (fst (convertToTSM parser net parse engine pg)) = []"
    "itemCount_text (fst (convertToTSM parser net parse engine pg)) = js ''0''"
    "uniqueCount_text (fst (convertToTSM parser net parse engine pg)) = js ''0''"
    "snd (convertToTSM parser net parse engine pg) = None"
    by simp_all
  from shown_failed shown_none rest names urls links messages_differ [of failedSearches]
  show ?thesis by blast
qed


theorem convertToTSM_empty_result_witness:
  \<open>\<not> list_all is_space (js ''[Tom & Jerry]'')
   \<and> resolve_all (\<lambda>k url. Rejected (js ''Failed to fetch'')) (\<lambda>t. None) 0
         (extractItemNames (js ''[Tom & Jerry]''))
         (extractItemIds (\<lambda>t. None) (js ''[Tom & Jerry]''), [], [])
       = Inr ([], [(js ''Tom & Jerry'',
                    js ''https://www.wowhead.com/items?filter=na=Tom%20%26%20Jerry'')], [])
   \<and> shown (fst (convertToTSM (\<lambda>t. None) (\<lambda>k url. Rejected (js ''Failed to fetch''))
                     (\<lambda>t. None) (\<lambda>ids i. 0)
                     \<lparr>input_value = js ''[Tom & Jerry]'', shown = None,
                      output_value = js ''i:1'', itemCount_text = js ''1'',
                      uniqueCount_text = js ''1''\<rparr>))
       = Some \<lparr>msg_text = js ''Could not automatically find items. Try searching manually: <a href="https://www.wowhead.com/items?filter=na=Tom%20%26%20Jerry" target="_blank" style="color: #58a6ff;">Tom &amp; Jerry</a>. Note: Automatic search may be blocked by ad blockers or browser extensions.'',
               msg_type = MsgError, msg_html = True\<rparr>
   \<and> output_value (fst (convertToTSM (\<lambda>t. None) (\<lambda>k url. Rejected (js ''Failed to fetch''))
                     (\<lambda>t. None) (\<lambda>ids i. 0)
                     \<lparr>input_value = js ''[Tom & Jerry]'', shown = None,
                      output_value = js ''i:1'', itemCount_text = js ''1'',
                      uniqueCount_text = js ''1''\<rparr>)) = []\<close>
proof -
  let ?pg = "\<lparr>input_value = js ''[Tom & Jerry]'', shown = None,
              output_value = js ''i:1'', itemCount_text = js ''1'',
              uniqueCount_text = js ''1''\<rparr>"
  have input: "\<not> list_all is_space (input_value ?pg)"
    by (simp add: js_def is_space_def)
  have lookups: "resolve_all (\<lambda>k url. Rejected (js ''Failed to fetch'')) (\<lambda>t. None) 0
         (extractItemNames (input_value ?pg))
         (extractItemIds (\<lambda>t. None) (input_value ?pg), [], [])
       = Inr ([], [(js ''Tom & Jerry'',
                    js ''https://www.wowhead.com/items?filter=na=Tom%20%26%20Jerry'')], [])"
    by code_simp
  from convertToTSM_empty_result [OF input lookups, of "\<lambda>ids i. 0"] input lookups show ?thesis
    by (simp add: js_def escapeHtml_def)
qed


lemma convertToTSM_plain_numbers:
  "output_value (fst (convertToTSM parser net parse engine (pg\<lparr>input_value := js ''500, 3, 42''\<rparr>)))
     = js ''i:3,i:42,i:500''"
proof -
  let ?pg = "pg\<lparr>input_value := js ''500, 3, 42''\<rparr>"
  have input: "\<not> list_all is_space (input_value ?pg)"
    by (simp add: js_def is_space_def)
  have names: "extractItemNames (js ''500, 3, 42'') = []"
    by code_simp
  have ids: "extractItemIds parser (js ''500, 3, 42'') = [js ''500'', js ''3'', js ''42'']"
    by code_simp
  have lookups: "resolve_all net parse 0 (extractItemNames (input_value ?pg))
           (extractItemIds parser (input_value ?pg), [], [])
         = Inr ([js ''500'', js ''3'', js ''42''], [], [])"
    by (simp add: names ids)
  have "tsmFormat [js ''3'', js ''42'', js ''500''] = js ''i:3,i:42,i:500''"
    by (simp add: tsmFormat_def js_def)
  then show ?thesis
    unfolding convertToTSM_resolved [OF input lookups]
    by (simp add: render_result_output example_ids_sorted)
qed

lemma convertToTSM_negative_id:
  \<open>output_value (fst (convertToTSM parser
      (\<lambda>k url. Response True (Inr (js ''new Listview({template: 'item', data: [{"id":-5}]})'')))
      (\<lambda>t. if t = js ''[{"id":-5}]'' then Some [Obj [(js ''id'', Num (js ''-5''))]] else None)
      engine (pg\<lparr>input_value := js ''3 [Sword]''\<rparr>)))
     = js ''i:-5,i:3''\<close>
proof -
  let ?pg = "pg\<lparr>input_value := js ''3 [Sword]''\<rparr>"
  let ?net = \<open>\<lambda>(k :: nat) (url :: jsstring).
                Response True (Inr (js ''new Listview({template: 'item', data: [{"id":-5}]})''))\<close>
  let ?parse = \<open>\<lambda>t. if t = js ''[{"id":-5}]'' then Some [Obj [(js ''id'', Num (js ''-5''))]] else None\<close>
  have input: "\<not> list_all is_space (input_value ?pg)"
    by (simp add: js_def is_space_def)
  have names: "extractItemNames (js ''3 [Sword]'') = [js ''Sword'']"
    by code_simp
  have ids: "extractItemIds parser (js ''3 [Sword]'') = [js ''3'']"
    by code_simp
  have "resolve_all ?net ?parse 0 [js ''Sword''] ([js ''3''], [], [])
         = Inr ([js ''3'', js ''-5''], [], [(js ''Sword'', Str (js ''Sword''), js ''-5'')])"
    by code_simp
  then have lookups: "resolve_all ?net ?parse 0 (extractItemNames (input_value ?pg))
           (extractItemIds parser (input_value ?pg), [], [])
         = Inr ([js ''3'', js ''-5''], [], [(js ''Sword'', Str (js ''Sword''), js ''-5'')])"
    by (simp add: names ids)
  have "sort_consistent [js ''3'', js ''-5''] = Some [js ''-5'', js ''3'']"
    by (simp add: sort_consistent_def number_key_def small_ids_Number)
  then have sorted_ids: "sortedIds engine [js ''3'', js ''-5''] = [js ''-5'', js ''3'']"
    by (simp add: sortedIds_def)
  have "tsmFormat [js ''-5'', js ''3''] = js ''i:-5,i:3''"
    by (simp add: tsmFormat_def js_def)
  then show ?thesis
    unfolding convertToTSM_resolved [OF input lookups]
    by (simp add: render_result_output sorted_ids)
qed

text \<open>
  Claim C3, as the code has it. Let \<^verbatim>\<open>convertToTSM\<close> come to a non-empty final set, and let
  every ID that a name lookup has added be a string of decimal digits (the IDs of
  \<^verbatim>\<open>extractItemIds\<close> always are, and so are those of the fallback scan of a lookup; the
  \<^verbatim>\<open>id\<close> of a parsed search result is merged as it is). Then the output is the sequence of
  tokens \<^verbatim>\<open>i:<decimal-digits>\<close>, one for each ID of the final set, which holds the IDs of
  \<^verbatim>\<open>extractItemIds\<close> and those of the lookups, joined by commas, with no separator at the
  end and no white space, in ascending order of \<^verbatim>\<open>Number(id)\<close>, the values of the IDs as
  doubles (a numeric comparison, not a lexicographic one); that is ascending numeric order
  whenever every ID is below \<open>2 ^ 53\<close>. The input \<^verbatim>\<open>500, 3, 42\<close> gives the output
  \<^verbatim>\<open>i:3,i:42,i:500\<close>.
\<close>

theorem convertToTSM_output_format:
  assumes "\<not> list_all is_space (input_value pg)"
    and "resolve_all net parse 0 (extractItemNames (input_value pg))
           (extractItemIds parser (input_value pg), [], []) = Inr (itemIds, failedSearches, foundItems)"
    and "itemIds \<noteq> []"
    and "\<forall>(searched, found, i) \<in> set foundItems. i \<noteq> [] \<and> list_all is_digit i"
  shows "split_on 0x2C (output_value (fst (convertToTSM parser net parse engine pg)))
           = map (\<lambda>i. js ''i:'' @ i) (sortedIds engine itemIds)
         \<and> (\<forall>i \<in> set (sortedIds engine itemIds). i \<noteq> [] \<and> list_all is_digit i)
         \<and> distinct (sortedIds engine itemIds)
         \<and> set (sortedIds engine itemIds)
             = set (extractItemIds parser (input_value pg))
               \<union> (\<lambda>(searched, found, i). i) ` set foundItems
         \<and> (\<forall>c \<in> set (output_value (fst (convertToTSM parser net parse engine pg))). \<not> is_space c)
         \<and> sorted_wrt (\<lambda>a b. \<exists>x y. js_Number a = Some x \<and> js_Number b = Some y \<and> x \<le> y)
               (sortedIds engine itemIds)
         \<and> ((\<forall>i \<in> set itemIds. dec_value i < 2 ^ 53) \<longrightarrow>
               sorted (map dec_value (sortedIds engine itemIds)))
         \<and> output_value (fst (convertToTSM parser net parse engine
                                 (pg\<lparr>input_value := js ''500, 3, 42''\<rparr>)))
             = js ''i:3,i:42,i:500''"
proof -
  from resolve_all_ids [OF assms(2)]
  have merged: "set itemIds = set (extractItemIds parser (input_value pg))
                  \<union> (\<lambda>(searched, found, i). i) ` set foundItems"
    by simp
  have digits: "\<forall>i \<in> set itemIds. i \<noteq> [] \<and> list_all is_digit i"
    unfolding merged using extractItemIds_ids [of _ parser "input_value pg"] assms(4)
    by auto
  have "distinct itemIds"
    using resolve_all_distinct [OF assms(2)] distinct_extractItemIds by blast
  then have distinct_sorted: "distinct (sortedIds engine itemIds)"
    by (simp add: sortedIds_distinct)
  from assms(3) have nonempty: "sortedIds engine itemIds \<noteq> []"
    using sortedIds_length [of engine itemIds] by auto
  from digits have sorted_digits: "\<forall>i \<in> set (sortedIds engine itemIds). i \<noteq> [] \<and> list_all is_digit i"
    by (simp add: sortedIds_set)
  then have only_digits: "\<forall>i \<in> set (sortedIds engine itemIds). list_all is_digit i"
    by blast
  have out: "output_value (fst (convertToTSM parser net parse engine pg))
               = tsmFormat (sortedIds engine itemIds)"
    unfolding convertToTSM_resolved [OF assms(1,2)]
    by (simp add: render_result_output [OF assms(3)])
  from tsmFormat_split [OF nonempty only_digits] tsmFormat_no_space [OF only_digits]
    sorted_digits distinct_sorted merged sortedIds_set [of engine itemIds]
    sortedIds_Number_order [OF digits, of engine] sortedIds_exact [OF digits, of engine]
    convertToTSM_plain_numbers [of parser net parse engine pg]
  show ?thesis
    unfolding out by blast
qed


theorem convertToTSM_output_format_witness:
  "\<not> list_all is_space (js ''500, [Sword]'')
   \<and> resolve_all (\<lambda>k url. Response True (Inr (js ''/item=42''))) (\<lambda>t. None) 0
         (extractItemNames (js ''500, [Sword]''))
         (extractItemIds (\<lambda>t. None) (js ''500, [Sword]''), [], [])
       = Inr ([js ''500'', js ''42''], [], [(js ''Sword'', Str (js ''Sword''), js ''42'')])
   \<and> [js ''500'', js ''42''] \<noteq> []
   \<and> js ''42'' \<noteq> [] \<and> list_all is_digit (js ''42'')
   \<and> dec_value (js ''500'') < 2 ^ 53 \<and> dec_value (js ''42'') < 2 ^ 53
   \<and> sortedIds (\<lambda>ids i. 0) [js ''500'', js ''42''] = [js ''42'', js ''500'']
   \<and> split_on 0x2C (output_value (fst (convertToTSM (\<lambda>t. None)
         (\<lambda>k url. Response True (Inr (js ''/item=42''))) (\<lambda>t. None) (\<lambda>ids i. 0)
         \<lparr>input_value = js ''500, [Sword]'', shown = None, output_value = [],
          itemCount_text = js ''0'', uniqueCount_text = js ''0''\<rparr>)))
       = [js ''i:42'', js ''i:500'']
   \<and> sorted (map dec_value (sortedIds (\<lambda>ids i. 0) [js ''500'', js ''42'']))"
proof -
  let ?pg = "\<lparr>input_value = js ''500, [Sword]'', shown = None, output_value = [],
              itemCount_text = js ''0'', uniqueCount_text = js ''0''\<rparr>"
  have input: "\<not> list_all is_space (input_value ?pg)"
    by (simp add: js_def is_space_def)
  have lookups: "resolve_all (\<lambda>k url. Response True (Inr (js ''/item=42''))) (\<lambda>t. None) 0
         (extractItemNames (input_value ?pg))
         (extractItemIds (\<lambda>t. None) (input_value ?pg), [], [])
       = Inr ([js ''500'', js ''42''], [], [(js ''Sword'', Str (js ''Sword''), js ''42'')])"
    by code_simp
  have nonempty: "[js ''500'', js ''42''] \<noteq> []"
    by simp
  have digits: "js ''42'' \<noteq> [] \<and> list_all is_digit (js ''42'')"
    by (simp add: js_def is_digit_def)
  then have found: "\<forall>(searched, found, i) \<in> set [(js ''Sword'', Str (js ''Sword''), js ''42'')].
                      i \<noteq> [] \<and> list_all is_digit i"
    by simp
  have small: "dec_value (js ''500'') < 2 ^ 53 \<and> dec_value (js ''42'') < 2 ^ 53"
    by (simp add: dec_value_def js_def digit_val_def)
  then have all_small: "\<forall>i \<in> set [js ''500'', js ''42'']. dec_value i < 2 ^ 53"
    by simp
  have all_digits: "\<forall>i \<in> set [js ''500'', js ''42'']. i \<noteq> [] \<and> list_all is_digit i"
    by (simp add: js_def is_digit_def)
  have vals: "dec_value (js ''500'') = 500" "dec_value (js ''42'') = 42"
    by (simp_all add: dec_value_def js_def digit_val_def)
  have keys: "number_key (js ''500'') = 500" "number_key (js ''42'') = 42"
    using all_digits small by (simp_all add: number_key_small vals)
  have sorted_ids: "sortedIds (\<lambda>ids i. 0) [js ''500'', js ''42''] = [js ''42'', js ''500'']"
    unfolding sortedIds_digits [OF all_digits] by (simp add: keys)
  from convertToTSM_output_format [OF input lookups nonempty found, of "\<lambda>ids i. 0"] all_small
  have "split_on 0x2C (output_value (fst (convertToTSM (\<lambda>t. None)
            (\<lambda>k url. Response True (Inr (js ''/item=42''))) (\<lambda>t. None) (\<lambda>ids i. 0) ?pg)))
          = map (\<lambda>i. js ''i:'' @ i) (sortedIds (\<lambda>ids i. 0) [js ''500'', js ''42''])
        \<and> sorted (map dec_value (sortedIds (\<lambda>ids i. 0) [js ''500'', js ''42'']))"
    by blast
  then have "split_on 0x2C (output_value (fst (convertToTSM (\<lambda>t. None)
            (\<lambda>k url. Response True (Inr (js ''/item=42''))) (\<lambda>t. None) (\<lambda>ids i. 0) ?pg)))
          = [js ''i:42'', js ''i:500'']
        \<and> sorted (map dec_value (sortedIds (\<lambda>ids i. 0) [js ''500'', js ''42'']))"
    unfolding sorted_ids by (simp add: js_def)
  with input lookups nonempty digits small sorted_ids show ?thesis
    by simp
qed

end
